theory Spec2Isabelle
  imports Main "HOL-Library.Word" "HOL-Library.Multiset"
begin

section \<open>Common vocabulary\<close>

text \<open>
  A Go \<^verbatim>\<open>error\<close> value is modelled by its message; \<^verbatim>\<open>nil\<close> is \<open>None\<close> of
  \<open>error option\<close>.  A call of the program either returns, or ends the whole process through
  \<^verbatim>\<open>log.Fatal\<close>, or never returns because it waits on a channel that stays empty.
\<close>

type_synonym error = string

datatype ('f, 'a) exec = Fatal 'f | Blocked | Done 'a

text \<open>
  A Go slice is either \<^verbatim>\<open>nil\<close> or a (possibly empty) sequence; \<^verbatim>\<open>[]string{}\<close> is the
  empty sequence, not \<^verbatim>\<open>nil\<close>.  \<^verbatim>\<open>append(s, t...)\<close> keeps \<^verbatim>\<open>s\<close> when \<^verbatim>\<open>t\<close> has no element.
\<close>

datatype 'a slice = NilSlice | Slice "'a list"

fun elems :: "'a slice \<Rightarrow> 'a list" where
  "elems NilSlice = []"
| "elems (Slice xs) = xs"

definition append_slice :: "'a slice \<Rightarrow> 'a slice \<Rightarrow> 'a slice" where
  "append_slice s t = (case elems t of [] \<Rightarrow> s | x # xs \<Rightarrow> Slice (elems s @ x # xs))"

definition append_one :: "'a slice \<Rightarrow> 'a \<Rightarrow> 'a slice" where
  "append_one s x = Slice (elems s @ [x])"

section \<open>crawler/extract\_urls.go\<close>

subsection \<open>The document and URL libraries\<close>

text \<open>
  The parsed HTML document of goquery: a tree of element and text nodes.  An element carries its
  tag name and its attributes in source order.  \<^verbatim>\<open>Find(tag)\<close> on the document yields the
  descendants of the root with that tag name in document order (each child is visited before its
  own descendants, children from first to last); \<^verbatim>\<open>Attr(name)\<close> yields the value of the first
  attribute of that name and whether there is one.
\<close>

datatype node = Element string "(string \<times> string) list" "node list" | Text string

fun is_tag :: "string \<Rightarrow> node \<Rightarrow> bool" where
  "is_tag sel (Element t as cs) = (t = sel)"
| "is_tag sel (Text s) = False"

fun Find :: "node \<Rightarrow> string \<Rightarrow> node list" where
  "Find (Element t as cs) sel =
     concat (map (\<lambda>c. (if is_tag sel c then [c] else []) @ Find c sel) cs)"
| "Find (Text s) sel = []"

fun Attr :: "node \<Rightarrow> string \<Rightarrow> string \<times> bool" where
  "Attr (Element t as cs) name =
     (case map_of as name of Some v \<Rightarrow> (v, True) | None \<Rightarrow> ('''', False))"
| "Attr (Text s) name = ('''', False)"

text \<open>
  The result of \<^verbatim>\<open>url.Parse\<close>.  The parser itself belongs to the Go standard library, and the
  HTML reader to goquery; both are parameters of the functions below:
  \<open>Parse :: string \<Rightarrow> error + URL\<close> and \<open>NewDocumentFromReader :: 'r \<Rightarrow> error + node\<close>.
\<close>

record URL =
  Scheme :: string
  Host :: string
  Path :: string

subsection \<open>findByElementAttribute and ExtractURLs\<close>

text \<open>
  The body of the \<^verbatim>\<open>Each\<close> callback, run over the selection from first to last.  The attribute
  value is parsed whether or not the attribute exists (a missing attribute gives the empty
  string); a parse error ends the process.
\<close>

fun each_element ::
  "(string \<Rightarrow> error + URL) \<Rightarrow> string \<Rightarrow> string \<Rightarrow> node list \<Rightarrow> string slice
     \<Rightarrow> (error, string slice) exec" where
  "each_element Parse host attr [] urls = Done urls"
| "each_element Parse host attr (element # rest) urls =
     (let (href, exists) = Attr element attr in
      case Parse href of
        Inl err \<Rightarrow> Fatal err
      | Inr u \<Rightarrow>
          each_element Parse host attr rest
            (if exists \<and> Host u = host then append_one urls href else urls))"

definition findByElementAttribute ::
  "(string \<Rightarrow> error + URL) \<Rightarrow> node \<Rightarrow> string \<Rightarrow> string \<Rightarrow> string
     \<Rightarrow> (error, string slice) exec" where
  "findByElementAttribute Parse document host element attr =
     each_element Parse host attr (Find document element) (Slice [])"

definition urlElementMatches :: "(string \<times> string) list" where
  "urlElementMatches =
     [(''a'', ''href''), (''img'', ''src''), (''link'', ''href''), (''script'', ''src'')]"

text \<open>The \<^verbatim>\<open>for ... range urlElementMatches\<close> loop.  Nothing in the crawler waits, so the case
  \<open>Blocked\<close> never arises here; it is passed on because the type has it.\<close>

fun range_matches ::
  "(string \<Rightarrow> error + URL) \<Rightarrow> node \<Rightarrow> string \<Rightarrow> (string \<times> string) list \<Rightarrow> string slice
     \<Rightarrow> (error, string slice) exec" where
  "range_matches Parse document host [] urls = Done urls"
| "range_matches Parse document host ((element, attr) # rest) urls =
     (case findByElementAttribute Parse document host element attr of
        Fatal err \<Rightarrow> Fatal err
      | Blocked \<Rightarrow> Blocked
      | Done found \<Rightarrow> range_matches Parse document host rest (append_slice urls found))"

definition ExtractURLs ::
  "('r \<Rightarrow> error + node) \<Rightarrow> (string \<Rightarrow> error + URL) \<Rightarrow> 'r \<Rightarrow> string
     \<Rightarrow> (error, string slice \<times> error option) exec" where
  "ExtractURLs NewDocumentFromReader Parse body host =
     (let urls = Slice [] in
      case NewDocumentFromReader body of
        Inl err \<Rightarrow> Done (urls, Some err)
      | Inr document \<Rightarrow>
          (case range_matches Parse document host urlElementMatches urls of
             Fatal err \<Rightarrow> Fatal err
           | Blocked \<Rightarrow> Blocked
           | Done urls' \<Rightarrow> Done (urls', None)))"

subsection \<open>What ExtractURLs is expected to return\<close>

text \<open>
  The attribute values of the elements with the given tag that carry the attribute and whose
  parsed URL has the given host, in document order.
\<close>

definition same_host :: "(string \<Rightarrow> error + URL) \<Rightarrow> string \<Rightarrow> string \<Rightarrow> bool" where
  "same_host Parse host href = (case Parse href of Inl err \<Rightarrow> False | Inr u \<Rightarrow> Host u = host)"

definition wanted ::
  "(string \<Rightarrow> error + URL) \<Rightarrow> node \<Rightarrow> string \<Rightarrow> string \<times> string \<Rightarrow> string list" where
  "wanted Parse document host m =
     map (\<lambda>e. fst (Attr e (snd m)))
       (filter (\<lambda>e. snd (Attr e (snd m)) \<and> same_host Parse host (fst (Attr e (snd m))))
          (Find document (fst m)))"

text \<open>The strings handed to \<^verbatim>\<open>url.Parse\<close> during one run, in the order of the calls.\<close>

definition examined :: "node \<Rightarrow> string list" where
  "examined document =
     concat (map (\<lambda>m. map (\<lambda>e. fst (Attr e (snd m))) (Find document (fst m))) urlElementMatches)"

definition parses :: "(string \<Rightarrow> error + URL) \<Rightarrow> string \<Rightarrow> bool" where
  "parses Parse href = (case Parse href of Inl err \<Rightarrow> False | Inr u \<Rightarrow> True)"

text \<open>
  An instance of the URL parser for concrete runs: it follows \<^verbatim>\<open>url.Parse\<close> on the inputs used
  below.  A string that starts with a colon is rejected (\<^verbatim>\<open>missing protocol scheme\<close>);
  \<^verbatim>\<open>http://h/...\<close> has host \<^verbatim>\<open>h\<close>; any other string used below is a relative reference with an
  empty host.
\<close>

definition Parse_sample :: "string \<Rightarrow> error + URL" where
  "Parse_sample s =
     (if take 1 s = '':'' then Inl ''missing protocol scheme''
      else if take 7 s = ''http://'' then
        Inr \<lparr>Scheme = ''http'', Host = takeWhile (\<lambda>c. c \<noteq> CHR ''/'') (drop 7 s),
             Path = dropWhile (\<lambda>c. c \<noteq> CHR ''/'') (drop 7 s)\<rparr>
      else Inr \<lparr>Scheme = '''', Host = '''', Path = s\<rparr>)"

definition sample_page :: node where
  "sample_page =
     Element ''html'' []
       [Element ''head'' []
          [Element ''script'' [(''src'', ''http://www.gov.uk/app.js'')] [],
           Element ''link'' [(''rel'', ''stylesheet''), (''href'', ''http://cdn.example/s.css'')] []],
        Element ''body'' []
          [Element ''a'' [(''href'', ''http://www.gov.uk/help'')] [Text ''Help''],
           Element ''img'' [(''src'', ''http://www.gov.uk/logo.png'')] [],
           Element ''a'' [(''name'', ''top'')] [],
           Element ''a'' [(''href'', ''/relative'')] []]]"

definition broken_page :: node where
  "broken_page =
     Element ''html'' []
       [Element ''body'' []
          [Element ''a'' [(''href'', ''http://www.gov.uk/help'')] [],
           Element ''a'' [(''href'', '':'')] []]]"

section \<open>queue/queue\_connection.go\<close>

subsection \<open>The connection and the library behind it\<close>

text \<open>
  A delivery tag is a \<^verbatim>\<open>uint64\<close>.  A broker confirm is an ack or a nack of one tag; the amqp
  library hands acks to the channel \<^verbatim>\<open>c.ack\<close> and nacks to \<^verbatim>\<open>c.nack\<close>.
\<close>

type_synonym tag = "64 word"

datatype confirm = Acked tag | Nacked tag

fun tag_of :: "confirm \<Rightarrow> tag" where
  "tag_of (Acked t) = t"
| "tag_of (Nacked t) = t"

record Publishing =
  Headers :: "(string \<times> string) list"
  ContentType :: string
  ContentEncoding :: string
  Body :: string
  DeliveryMode :: nat
  Priority :: nat

definition Persistent :: nat where
  "Persistent = 2"

text \<open>The calls the program makes into the amqp library and the logger, as they are observed.\<close>

datatype call =
    ChannelClose
  | ConnectionClose
  | ChannelPublish string string bool bool Publishing
  | ChannelAck tag bool
  | ChannelNack tag bool bool
  | LogPrintln string tag

text \<open>
  The struct \<^verbatim>\<open>QueueConnection\<close> together with the library objects its two pointers refer to.
  \<open>ack\<close> and \<open>nack\<close> hold the values waiting on the two confirm channels, oldest first.  The
  library is outside the repository: what each of its calls returns is part of the state
  (\<open>channel_close\<close>, \<open>connection_close\<close>, \<open>channel_publish\<close>, \<open>channel_ack\<close>, \<open>channel_nack\<close>),
  and \<open>calls\<close> records every call made, in order.
\<close>

record QueueConnection =
  ack :: "tag list"
  nack :: "tag list"
  calls :: "call list"
  channel_close :: "error option"
  connection_close :: "error option"
  channel_publish :: "error option"
  channel_ack :: "tag \<Rightarrow> error option"
  channel_nack :: "tag \<Rightarrow> error option"

definition Channel_Close :: "QueueConnection \<Rightarrow> error option \<times> QueueConnection" where
  "Channel_Close c = (channel_close c, c\<lparr>calls := calls c @ [ChannelClose]\<rparr>)"

definition Connection_Close :: "QueueConnection \<Rightarrow> error option \<times> QueueConnection" where
  "Connection_Close c = (connection_close c, c\<lparr>calls := calls c @ [ConnectionClose]\<rparr>)"

definition Channel_Publish ::
  "QueueConnection \<Rightarrow> string \<Rightarrow> string \<Rightarrow> bool \<Rightarrow> bool \<Rightarrow> Publishing
     \<Rightarrow> error option \<times> QueueConnection" where
  "Channel_Publish c exchange key mandatory immediate msg =
     (channel_publish c,
      c\<lparr>calls := calls c @ [ChannelPublish exchange key mandatory immediate msg]\<rparr>)"

definition Channel_Ack :: "QueueConnection \<Rightarrow> tag \<Rightarrow> bool \<Rightarrow> error option \<times> QueueConnection" where
  "Channel_Ack c t multiple = (channel_ack c t, c\<lparr>calls := calls c @ [ChannelAck t multiple]\<rparr>)"

definition Channel_Nack ::
  "QueueConnection \<Rightarrow> tag \<Rightarrow> bool \<Rightarrow> bool \<Rightarrow> error option \<times> QueueConnection" where
  "Channel_Nack c t multiple requeue =
     (channel_nack c t, c\<lparr>calls := calls c @ [ChannelNack t multiple requeue]\<rparr>)"

definition log_Println :: "QueueConnection \<Rightarrow> string \<Rightarrow> tag \<Rightarrow> QueueConnection" where
  "log_Println c msg t = c\<lparr>calls := calls c @ [LogPrintln msg t]\<rparr>"

subsection \<open>NewQueueConnection and Close\<close>

text \<open>
  \<^verbatim>\<open>NewQueueConnection\<close> dials, opens a channel, puts it into confirm mode and registers two
  fresh channels of capacity 1 for the confirms; the first failing step is returned.  The results
  of the three library calls are \<open>dial\<close>, \<open>open_channel\<close> and \<open>confirm_mode\<close>, and \<open>lib\<close> stands
  for the library objects obtained.
\<close>

definition NewQueueConnection ::
  "error option \<Rightarrow> error option \<Rightarrow> error option \<Rightarrow> QueueConnection
     \<Rightarrow> error + QueueConnection" where
  "NewQueueConnection dial open_channel confirm_mode lib =
     (case dial of
        Some err \<Rightarrow> Inl err
      | None \<Rightarrow>
          (case open_channel of
             Some err \<Rightarrow> Inl err
           | None \<Rightarrow>
               (case confirm_mode of
                  Some err \<Rightarrow> Inl err
                | None \<Rightarrow> Inr (lib\<lparr>ack := [], nack := []\<rparr>))))"

definition Close :: "QueueConnection \<Rightarrow> error option \<times> QueueConnection" where
  "Close c =
     (let (err, c1) = Channel_Close c in
      if err \<noteq> None then (err, c1)
      else Connection_Close c1)"

subsection \<open>Publish and publisherConfirm\<close>

text \<open>
  The \<^verbatim>\<open>select\<close> of \<^verbatim>\<open>publisherConfirm\<close>: it receives from whichever of the two channels has
  a value, waits while neither has one (\<open>None\<close>), and takes either when both have one; the
  flag \<open>pick\<close> stands for that choice, which the Go runtime makes.
\<close>

definition select_confirm :: "bool \<Rightarrow> QueueConnection \<Rightarrow> (confirm \<times> QueueConnection) option" where
  "select_confirm pick c =
     (case (ack c, nack c) of
        ([], []) \<Rightarrow> None
      | (t # ts, []) \<Rightarrow> Some (Acked t, c\<lparr>ack := ts\<rparr>)
      | ([], t # ts) \<Rightarrow> Some (Nacked t, c\<lparr>nack := ts\<rparr>)
      | (a # as, n # ns) \<Rightarrow>
          if pick then Some (Acked a, c\<lparr>ack := as\<rparr>) else Some (Nacked n, c\<lparr>nack := ns\<rparr>))"

text \<open>
  \<^verbatim>\<open>publisherConfirm\<close> has no result and no parameter but the connection: it does not know
  the delivery tag of the publish it follows.  A failing \<^verbatim>\<open>Ack\<close> or \<^verbatim>\<open>Nack\<close> call ends the
  process through \<^verbatim>\<open>log.Fatal\<close>, with the message, the tag and the error.
\<close>

definition publisherConfirm ::
  "bool \<Rightarrow> QueueConnection \<Rightarrow> (string \<times> tag \<times> error, QueueConnection) exec" where
  "publisherConfirm pick c =
     (case select_confirm pick c of
        None \<Rightarrow> Blocked
      | Some (Acked t, c1) \<Rightarrow>
          (let c2 = log_Println c1 ''Acknowledge message publish:'' t;
               (err, c3) = Channel_Ack c2 t False in
           case err of
             Some e \<Rightarrow> Fatal (''Couldn't ack:'', t, e)
           | None \<Rightarrow> Done c3)
      | Some (Nacked t, c1) \<Rightarrow>
          (let c2 = log_Println c1 ''Couldn't acknowledge message publish:'' t;
               (err, c3) = Channel_Nack c2 t False True in
           case err of
             Some e \<Rightarrow> Fatal (''Couldn't nack:'', t, e)
           | None \<Rightarrow> Done c3))"

text \<open>
  \<^verbatim>\<open>Publish\<close>: the operand of \<^verbatim>\<open>return\<close> is evaluated first (the call of
  \<^verbatim>\<open>Channel.Publish\<close>), then the deferred \<^verbatim>\<open>publisherConfirm\<close> runs, then the value is returned.
\<close>

definition Publish ::
  "bool \<Rightarrow> QueueConnection \<Rightarrow> string \<Rightarrow> string \<Rightarrow> string \<Rightarrow> string
     \<Rightarrow> (string \<times> tag \<times> error, error option \<times> QueueConnection) exec" where
  "Publish pick c exchangeName routingKey contentType body =
     (let (err, c1) =
            Channel_Publish c exchangeName routingKey False False
              \<lparr>Headers = [], ContentType = contentType, ContentEncoding = '''', Body = body,
               DeliveryMode = Persistent, Priority = 0\<rparr>
      in case publisherConfirm pick c1 of
           Fatal f \<Rightarrow> Fatal f
         | Blocked \<Rightarrow> Blocked
         | Done c2 \<Rightarrow> Done (err, c2))"

text \<open>The message that \<^verbatim>\<open>Publish\<close> hands to the library.\<close>

definition published_call :: "string \<Rightarrow> string \<Rightarrow> string \<Rightarrow> string \<Rightarrow> call" where
  "published_call exchangeName routingKey contentType body =
     ChannelPublish exchangeName routingKey False False
       \<lparr>Headers = [], ContentType = contentType, ContentEncoding = '''', Body = body,
        DeliveryMode = Persistent, Priority = 0\<rparr>"

text \<open>A connection whose library calls all succeed, with the given channel contents.\<close>

definition healthy :: "tag list \<Rightarrow> tag list \<Rightarrow> QueueConnection" where
  "healthy acks nacks =
     \<lparr>ack = acks, nack = nacks, calls = [], channel_close = None, connection_close = None,
      channel_publish = None, channel_ack = (\<lambda>t. None), channel_nack = (\<lambda>t. None)\<rparr>"

subsection \<open>Any number of Publish calls on one connection\<close>

text \<open>
  Each call of \<^verbatim>\<open>Publish\<close> takes two steps: the call of \<^verbatim>\<open>Channel.Publish\<close>, and the receive
  of the deferred \<^verbatim>\<open>publisherConfirm\<close> with what follows it.  Between the steps of one call
  other calls and the broker may move.  Any number of calls may be made on a connection, by any
  number of goroutines; the calls are numbered 0, 1, ... in the order of their \<^verbatim>\<open>Channel.Publish\<close>.
  The library's answer to each \<^verbatim>\<open>Channel.Publish\<close> comes with the event.  In confirm mode the
  library numbers the publishes that go out on a channel 1, 2, ... (a \<^verbatim>\<open>uint64\<close> counter); the
  broker confirms an unconfirmed publish, in any order, and the library puts the tag into
  \<^verbatim>\<open>c.ack\<close> or \<^verbatim>\<open>c.nack\<close>, each of capacity 1 (\<^verbatim>\<open>make(chan uint64, 1)\<close>).  The tag of a publish
  is not returned to the caller; the model keeps it beside the call, with the value that
  \<^verbatim>\<open>Channel.Publish\<close> returned, to state which confirm belongs to which call.
\<close>

datatype progress =
    Waiting "tag option" "error option"
  | Finished "tag option" "error option" confirm

record system =
  conn :: QueueConnection
  seq :: tag
  unconfirmed :: "tag list"
  delivered :: "confirm list"
  progress :: "progress list"

datatype event =
    DoPublish "error option" string string string string
  | BrokerConfirm tag bool
  | DoReceive nat bool

definition start :: "QueueConnection \<Rightarrow> system" where
  "start c = \<lparr>conn = c, seq = 0, unconfirmed = [], delivered = [], progress = []\<rparr>"

fun step :: "event \<Rightarrow> system \<Rightarrow> system option" where
  "step (DoPublish answer exchangeName routingKey contentType body) s =
     (case Channel_Publish ((conn s)\<lparr>channel_publish := answer\<rparr>) exchangeName routingKey
             False False
             \<lparr>Headers = [], ContentType = contentType, ContentEncoding = '''', Body = body,
              DeliveryMode = Persistent, Priority = 0\<rparr> of
        (Some err, c1) \<Rightarrow>
          Some (s\<lparr>conn := c1, progress := progress s @ [Waiting None (Some err)]\<rparr>)
      | (None, c1) \<Rightarrow>
          Some (s\<lparr>conn := c1, seq := seq s + 1, unconfirmed := unconfirmed s @ [seq s + 1],
                  progress := progress s @ [Waiting (Some (seq s + 1)) None]\<rparr>))"
| "step (BrokerConfirm t ok) s =
     (if t \<in> set (unconfirmed s) \<and> length (if ok then ack (conn s) else nack (conn s)) < 1
      then Some (s\<lparr>conn := (if ok then (conn s)\<lparr>ack := ack (conn s) @ [t]\<rparr>
                              else (conn s)\<lparr>nack := nack (conn s) @ [t]\<rparr>),
                   unconfirmed := remove1 t (unconfirmed s),
                   delivered := delivered s @ [if ok then Acked t else Nacked t]\<rparr>)
      else None)"
| "step (DoReceive i pick) s =
     (if i < length (progress s) then
        (case progress s ! i of
           Waiting own err \<Rightarrow>
             (case (select_confirm pick (conn s), publisherConfirm pick (conn s)) of
                (Some (cf, c1), Done c2) \<Rightarrow>
                  Some (s\<lparr>conn := c2, progress := (progress s)[i := Finished own err cf]\<rparr>)
              | _ \<Rightarrow> None)
         | Finished own err cf \<Rightarrow> None)
      else None)"

fun run :: "event list \<Rightarrow> system \<Rightarrow> system option" where
  "run [] s = Some s"
| "run (e # es) s = (case step e s of None \<Rightarrow> None | Some s' \<Rightarrow> run es s')"

text \<open>The confirm a finished call has handled, and the tag of the publish of a call.\<close>

fun handled_by :: "progress \<Rightarrow> confirm list" where
  "handled_by (Finished own err cf) = [cf]"
| "handled_by (Waiting own err) = []"

fun own_tag :: "progress \<Rightarrow> tag list" where
  "own_tag (Waiting own err) = (case own of None \<Rightarrow> [] | Some t \<Rightarrow> [t])"
| "own_tag (Finished own err cf) = (case own of None \<Rightarrow> [] | Some t \<Rightarrow> [t])"

fun is_finished :: "progress \<Rightarrow> bool" where
  "is_finished (Finished own err cf) = True"
| "is_finished (Waiting own err) = False"

text \<open>What the \<^verbatim>\<open>select\<close> of \<^verbatim>\<open>publisherConfirm\<close> receives on a connection, if anything.\<close>

definition received :: "bool \<Rightarrow> QueueConnection \<Rightarrow> confirm option" where
  "received pick c = map_option fst (select_confirm pick c)"

text \<open>The confirms handled so far, and the tags of the publishes that went out, by call.\<close>

definition handled :: "system \<Rightarrow> confirm list" where
  "handled s = concat (map handled_by (progress s))"

definition owned :: "system \<Rightarrow> tag list" where
  "owned s = concat (map own_tag (progress s))"

text \<open>
  What every reachable state satisfies: each confirm the broker has sent waits on a channel or
  has been handled by a finished call; each publish that went out is unconfirmed or confirmed;
  the publishes that went out carry the tags 1, 2, ... in order; a call has a tag exactly when
  its \<^verbatim>\<open>Channel.Publish\<close> returned nil.
\<close>

definition first_tags :: "nat \<Rightarrow> tag list" where
  "first_tags n = map of_nat [1 ..< Suc n]"

definition started_ok :: "progress \<Rightarrow> bool" where
  "started_ok p =
     (case p of
        Waiting own err \<Rightarrow> (err = None) = (own \<noteq> None)
      | Finished own err cf \<Rightarrow> (err = None) = (own \<noteq> None))"

definition consistent :: "system \<Rightarrow> bool" where
  "consistent s =
     (list_all started_ok (progress s) \<and>
      mset (delivered s) =
        mset (map Acked (ack (conn s))) + mset (map Nacked (nack (conn s))) + mset (handled s) \<and>
      mset (map tag_of (delivered s)) + mset (unconfirmed s) = mset (owned s) \<and>
      owned s = first_tags (length (owned s)) \<and>
      seq s = of_nat (length (owned s)))"

text \<open>
  Three schedules.  In \<open>in_order\<close> and \<open>reversed\<close> two calls publish (tags 1 and 2).  In
  \<open>in_order\<close> the broker acks 1, call 0 receives, the broker nacks 2, call 1 receives.  In
  \<open>reversed\<close> the broker nacks 2 before it acks 1, and call 0 receives in between.  In
  \<open>three_calls\<close> a third call publishes (tag 3); the broker acks 1 and nacks 3, calls 0 and 1
  receive, and tag 2 stays unconfirmed.
\<close>

definition in_order :: "event list" where
  "in_order =
     [DoPublish None ''crawl'' ''#'' ''text/plain'' ''https://www.gov.uk/a'',
      DoPublish None ''crawl'' ''#'' ''text/plain'' ''https://www.gov.uk/b'',
      BrokerConfirm 1 True, DoReceive 0 True,
      BrokerConfirm 2 False, DoReceive 1 True]"

definition reversed :: "event list" where
  "reversed =
     [DoPublish None ''crawl'' ''#'' ''text/plain'' ''https://www.gov.uk/a'',
      DoPublish None ''crawl'' ''#'' ''text/plain'' ''https://www.gov.uk/b'',
      BrokerConfirm 2 False, DoReceive 0 True,
      BrokerConfirm 1 True, DoReceive 1 True]"

definition three_calls :: "event list" where
  "three_calls =
     [DoPublish None ''crawl'' ''#'' ''text/plain'' ''https://www.gov.uk/a'',
      DoPublish None ''crawl'' ''#'' ''text/plain'' ''https://www.gov.uk/b'',
      DoPublish None ''crawl'' ''#'' ''text/plain'' ''https://www.gov.uk/c'',
      BrokerConfirm 1 True, DoReceive 0 True,
      BrokerConfirm 3 False, DoReceive 1 True]"

section \<open>The dedup store client (ttl\_hash\_set)\<close>

text \<open>
  The sources hold the tests of the client (\<^verbatim>\<open>NewTTLHashSet\<close>, \<^verbatim>\<open>Add\<close>, \<^verbatim>\<open>Exists\<close>, \<^verbatim>\<open>TTL\<close>,
  \<^verbatim>\<open>Ping\<close>, \<^verbatim>\<open>Close\<close>) but not the client.  The definitions of this section follow the
  specification of the client instead, sections 3, 4.2, 6 and 7.  Time is counted in ticks of a
  clock; a call takes no time.
\<close>

text \<open>
  Modelled from the spec: the connection states of section 3 and the error taxonomy of section 7,
  which the missing client implements.
\<close>

datatype conn_state = Disconnected | Connected | Reconnecting | Closed

datatype store_error = ConnectionError | TransportError | ReconnectingError | ProtocolError

text \<open>
  Modelled from the spec: the backing key-value service and the network, which the missing client
  talks to.  \<open>entries\<close> maps a dedup key, the composite of namespace prefix and caller-supplied
  string, to its marker: the instant at which it expires, or \<open>None\<close> for a marker with no
  expiry set.  \<open>listening\<close> tells at which addresses a dial succeeds, \<open>link_ok\<close> whether the
  connection the client holds is alive, and \<open>dials\<close> counts the dial attempts made so far.
\<close>

record world =
  now :: nat
  entries :: "string \<times> string \<Rightarrow> nat option option"
  listening :: "string \<Rightarrow> bool"
  link_ok :: bool
  dials :: nat

text \<open>
  Modelled from the spec: the missing client object.  The prefix, the address, the time to live of
  a marker and the polling interval of the reconnect supervisor are its configuration; \<open>state\<close>
  is its connection state and \<open>next_dial\<close> the instant from which the supervisor dials next.
\<close>

record client =
  prefix :: string
  address :: string
  ttl :: nat
  poll :: nat
  state :: conn_state
  next_dial :: nat

text \<open>
  Modelled from the spec: a key is present when it is "currently stored and unexpired"
  (the missing \<^verbatim>\<open>Exists\<close>).
\<close>

definition live :: "world \<Rightarrow> string \<times> string \<Rightarrow> bool" where
  "live w k =
     (case entries w k of
        None \<Rightarrow> False
      | Some None \<Rightarrow> True
      | Some (Some e) \<Rightarrow> now w < e)"

text \<open>
  Modelled from the spec: the missing constructor \<^verbatim>\<open>NewTTLHashSet\<close> (\<open>Open(prefix, address)\<close>):
  it "attempts one eager connection; fails immediately (no retry) if that attempt fails,
  returning a ConnectionError and no usable client".  \<open>Inl\<close> is the result without a client.
\<close>

definition NewTTLHashSet ::
  "nat \<Rightarrow> nat \<Rightarrow> string \<Rightarrow> string \<Rightarrow> world \<Rightarrow> (store_error + client) \<times> world" where
  "NewTTLHashSet ttl_cfg poll_cfg pre addr w =
     (if listening w addr
      then (Inr \<lparr>prefix = pre, address = addr, ttl = ttl_cfg, poll = poll_cfg,
                 state = Connected, next_dial = 0\<rparr>,
            w\<lparr>link_ok := True, dials := dials w + 1\<rparr>)
      else (Inl ConnectionError, w\<lparr>dials := dials w + 1\<rparr>))"

text \<open>
  Modelled from the spec: steps 1 to 3 of the reconnection protocol, which every operation of
  the missing client goes through.  On a connected client whose connection is dead the
  operation "immediately returns that error to its caller" (a TransportError) and the
  "same observation triggers (at most once per outage) an asynchronous supervisor"; while the
  supervisor is at work "every subsequent call fails fast with a distinct reconnecting error
  class".  The spec does not name the error of a call on a Disconnected or Closed client; here
  such a call fails with a TransportError and changes nothing.
\<close>

definition attempt :: "client \<Rightarrow> world \<Rightarrow> store_error option \<times> client" where
  "attempt c w =
     (case state c of
        Connected \<Rightarrow>
          if link_ok w then (None, c)
          else (Some TransportError, c\<lparr>state := Reconnecting, next_dial := now w\<rparr>)
      | Reconnecting \<Rightarrow> (Some ReconnectingError, c)
      | Disconnected \<Rightarrow> (Some TransportError, c)
      | Closed \<Rightarrow> (Some TransportError, c))"

text \<open>
  Modelled from the spec: the missing \<^verbatim>\<open>Add\<close>, which "atomically inserts the composite key with
  a TTL only if absent.  Returns added=true on fresh insert, false if already present (not an
  error).  On transport failure returns err, added=false".
\<close>

definition Add :: "string \<Rightarrow> client \<Rightarrow> world \<Rightarrow> (bool \<times> store_error option) \<times> client \<times> world" where
  "Add key c w =
     (case attempt c w of
        (Some err, c') \<Rightarrow> ((False, Some err), c', w)
      | (None, c') \<Rightarrow>
          if live w (prefix c, key) then ((False, None), c', w)
          else ((True, None), c',
                w\<lparr>entries := (entries w)((prefix c, key) := Some (Some (now w + ttl c)))\<rparr>))"

text \<open>
  Modelled from the spec: the missing \<^verbatim>\<open>Exists\<close>, "true iff the key is currently stored and
  unexpired.  Transport failure: (false, err)".
\<close>

definition Exists :: "string \<Rightarrow> client \<Rightarrow> world \<Rightarrow> (bool \<times> store_error option) \<times> client \<times> world" where
  "Exists key c w =
     (case attempt c w of
        (Some err, c') \<Rightarrow> ((False, Some err), c', w)
      | (None, c') \<Rightarrow> ((live w (prefix c, key), None), c', w))"

text \<open>
  Modelled from the spec: the missing \<^verbatim>\<open>TTL\<close>: "a negative value encodes absent or no expiry
  set; a positive value is remaining lifetime.  Transport failure: returns an error instead".
  The two negative values are those of the wire contract the spec points to (-2 for an absent
  key, -1 for a key with no expiry).
\<close>

definition TTL :: "string \<Rightarrow> client \<Rightarrow> world \<Rightarrow> (store_error + int) \<times> client \<times> world" where
  "TTL key c w =
     (case attempt c w of
        (Some err, c') \<Rightarrow> (Inl err, c', w)
      | (None, c') \<Rightarrow>
          (Inr (case entries w (prefix c, key) of
                  None \<Rightarrow> - 2
                | Some None \<Rightarrow> - 1
                | Some (Some e) \<Rightarrow> if now w < e then int e - int (now w) else - 2),
           c', w))"

text \<open>
  Modelled from the spec: the missing \<^verbatim>\<open>Ping\<close>, a "liveness probe; expected reply is a fixed
  literal" (the tests expect \<^verbatim>\<open>PONG\<close>).
\<close>

definition Ping :: "client \<Rightarrow> world \<Rightarrow> (store_error + string) \<times> client \<times> world" where
  "Ping c w =
     (case attempt c w of
        (Some err, c') \<Rightarrow> (Inl err, c', w)
      | (None, c') \<Rightarrow> (Inr ''PONG'', c', w))"

text \<open>
  Modelled from the spec: step 2 and step 4 of the reconnection protocol, the missing reconnect
  supervisor.  Once triggered it "attempts to re-dial at a fixed polling interval until a new
  connection succeeds"; "once re-dial succeeds, the connection state flips to Connected".
  After a tick of the clock the supervisor acts if a dial is due.
\<close>

definition supervise :: "client \<times> world \<Rightarrow> client \<times> world" where
  "supervise cw =
     (let (c, w) = cw in
      if state c = Reconnecting \<and> next_dial c \<le> now w then
        if listening w (address c)
        then (c\<lparr>state := Connected\<rparr>, w\<lparr>link_ok := True, dials := dials w + 1\<rparr>)
        else (c\<lparr>next_dial := now w + poll c\<rparr>, w\<lparr>dials := dials w + 1\<rparr>)
      else (c, w))"

text \<open>
  Modelled from the spec: the passing of time for the missing client and its supervisor, one
  tick and \<open>n\<close> ticks.
\<close>

definition tick :: "client \<times> world \<Rightarrow> client \<times> world" where
  "tick cw = (let (c, w) = cw in supervise (c, w\<lparr>now := now w + 1\<rparr>))"

fun elapse :: "nat \<Rightarrow> client \<times> world \<Rightarrow> client \<times> world" where
  "elapse 0 cw = cw"
| "elapse (Suc n) cw = elapse n (tick cw)"

text \<open>A service at \<^verbatim>\<open>127.0.0.1:6379\<close> with no key stored, for concrete runs.\<close>

definition empty_store :: world where
  "empty_store =
     \<lparr>now = 0, entries = (\<lambda>k. None), listening = (\<lambda>a. a = ''127.0.0.1:6379''),
      link_ok = False, dials = 0\<rparr>"

definition test_client :: client where
  "test_client =
     \<lparr>prefix = ''govuk_mirror_crawler_test'', address = ''127.0.0.1:6379'', ttl = 43200,
      poll = 2, state = Connected, next_dial = 0\<rparr>"

text \<open>
  Modelled from the spec: Scenario B, an outage.  The service is unreachable until the instant
  \<open>up_at\<close> and reachable from then on; \<open>outage_tick\<close> is a tick of the clock under this outage,
  for the missing client and its supervisor, and \<open>outage_elapse\<close> is \<open>n\<close> such ticks.
\<close>

definition outage_tick :: "nat \<Rightarrow> client \<times> world \<Rightarrow> client \<times> world" where
  "outage_tick up_at cw =
     (let (c, w) = cw in
      tick (c, w\<lparr>listening := (listening w)(address c := (up_at \<le> now w + 1))\<rparr>))"

fun outage_elapse :: "nat \<Rightarrow> nat \<Rightarrow> client \<times> world \<Rightarrow> client \<times> world" where
  "outage_elapse 0 up_at cw = cw"
| "outage_elapse (Suc n) up_at cw = outage_elapse n up_at (outage_tick up_at cw)"

text \<open>
  Modelled from the spec: the caller of Scenario B, "a caller retrying each interval".  It
  waits one polling interval and calls \<^verbatim>\<open>Exists\<close>, again and again until a call succeeds or
  \<open>tries\<close> calls have been made; the result is the list of the errors it has seen.
\<close>

fun retries :: "nat \<Rightarrow> nat \<Rightarrow> string \<Rightarrow> client \<times> world \<Rightarrow> store_error list" where
  "retries 0 up_at key cw = []"
| "retries (Suc tries) up_at key cw =
     (let (c1, w1) = outage_elapse (poll (fst cw)) up_at cw in
      case Exists key c1 w1 of
        ((present, None), c2, w2) \<Rightarrow> []
      | ((present, Some err), c2, w2) \<Rightarrow> err # retries tries up_at key (c2, w2))"

section \<open>Properties of ExtractURLs\<close>

lemma each_element_ok:
  "list_all (\<lambda>e. parses Parse (fst (Attr e attr))) es \<Longrightarrow>
   each_element Parse host attr es (Slice xs) =
     Done (Slice (xs @ map (\<lambda>e. fst (Attr e attr))
       (filter (\<lambda>e. snd (Attr e attr) \<and> same_host Parse host (fst (Attr e attr))) es)))"
proof (induction es arbitrary: xs)
  case Nil
  then show ?case by simp
next
  case (Cons e es)
  then show ?case
    by (auto simp: parses_def same_host_def append_one_def split: sum.splits prod.splits)
qed

lemma each_element_fatal:
  "\<not> list_all (\<lambda>e. parses Parse (fst (Attr e attr))) es \<Longrightarrow>
   \<exists>err. Parse (hd (filter (\<lambda>h. \<not> parses Parse h) (map (\<lambda>e. fst (Attr e attr)) es))) = Inl err \<and>
     each_element Parse host attr es urls = Fatal err"
proof (induction es arbitrary: urls)
  case Nil
  then show ?case by simp
next
  case (Cons e es)
  obtain href ex where a: "Attr e attr = (href, ex)" by (cases "Attr e attr")
  show ?case
  proof (cases "Parse href")
    case (Inl err)
    then have "\<not> parses Parse href" by (simp add: parses_def)
    with Inl a show ?thesis by simp
  next
    case (Inr u)
    then have p: "parses Parse href" by (simp add: parses_def)
    with Cons.prems a have "\<not> list_all (\<lambda>e. parses Parse (fst (Attr e attr))) es" by simp
    from Cons.IH [OF this] p Inr a show ?thesis by simp
  qed
qed

lemma findByElementAttribute_ok:
  "list_all (\<lambda>e. parses Parse (fst (Attr e (snd m)))) (Find document (fst m)) \<Longrightarrow>
   findByElementAttribute Parse document host (fst m) (snd m) =
     Done (Slice (wanted Parse document host m))"
  by (simp add: findByElementAttribute_def wanted_def each_element_ok)

lemma append_slice_Slice: "append_slice (Slice xs) (Slice ys) = Slice (xs @ ys)"
  by (cases ys) (simp_all add: append_slice_def)

lemma range_matches_ok:
  "list_all (parses Parse)
     (concat (map (\<lambda>m. map (\<lambda>e. fst (Attr e (snd m))) (Find document (fst m))) ms)) \<Longrightarrow>
   range_matches Parse document host ms (Slice xs) =
     Done (Slice (xs @ concat (map (wanted Parse document host) ms)))"
proof (induction ms arbitrary: xs)
  case Nil
  then show ?case by simp
next
  case (Cons m ms)
  obtain el at where m: "m = (el, at)" by (cases m)
  from Cons.prems have h: "list_all (\<lambda>e. parses Parse (fst (Attr e (snd m)))) (Find document (fst m))"
    and t: "list_all (parses Parse)
     (concat (map (\<lambda>m. map (\<lambda>e. fst (Attr e (snd m))) (Find document (fst m))) ms))"
    by (simp_all add: list_all_iff)
  from findByElementAttribute_ok [OF h, of host] Cons.IH [OF t] m
  show ?case by (simp add: append_slice_Slice)
qed

lemma range_matches_fatal:
  "\<not> list_all (parses Parse)
     (concat (map (\<lambda>m. map (\<lambda>e. fst (Attr e (snd m))) (Find document (fst m))) ms)) \<Longrightarrow>
   \<exists>err. Parse (hd (filter (\<lambda>h. \<not> parses Parse h)
       (concat (map (\<lambda>m. map (\<lambda>e. fst (Attr e (snd m))) (Find document (fst m))) ms)))) = Inl err \<and>
     range_matches Parse document host ms (Slice xs) = Fatal err"
proof (induction ms arbitrary: xs)
  case Nil
  then show ?case by simp
next
  case (Cons m ms)
  obtain el at where m: "m = (el, at)" by (cases m)
  show ?case
  proof (cases "list_all (\<lambda>e. parses Parse (fst (Attr e at))) (Find document el)")
    case True
    then have f: "filter (\<lambda>h. \<not> parses Parse h) (map (\<lambda>e. fst (Attr e at)) (Find document el)) = []"
      by (simp add: list_all_iff)
    from True Cons.prems m have "\<not> list_all (parses Parse)
     (concat (map (\<lambda>m. map (\<lambda>e. fst (Attr e (snd m))) (Find document (fst m))) ms))"
      by (auto simp: list_all_iff)
    from Cons.IH [OF this] findByElementAttribute_ok [of Parse "(el, at)" document host] True m f
    show ?thesis by (simp add: append_slice_Slice)
  next
    case False
    from each_element_fatal [OF False, of host "Slice []"]
    obtain err where e: "Parse (hd (filter (\<lambda>h. \<not> parses Parse h) (map (\<lambda>e. fst (Attr e at)) (Find document el)))) = Inl err"
      and f: "each_element Parse host at (Find document el) (Slice []) = Fatal err" by blast
    from False have ne: "filter (\<lambda>h. \<not> parses Parse h) (map (\<lambda>e. fst (Attr e at)) (Find document el)) \<noteq> []"
      by (simp add: list_all_iff filter_empty_conv)
    from e f ne m show ?thesis by (simp add: findByElementAttribute_def)
  qed
qed

text \<open>
  Claim C10, as the code has it.  If the reader fails, \<^verbatim>\<open>ExtractURLs\<close> returns the empty, non-nil
  slice together with the error.  If the document is read and every string handed to
  \<^verbatim>\<open>url.Parse\<close> parses (the attribute value of each \<^verbatim>\<open>a\<close>, \<^verbatim>\<open>img\<close>, \<^verbatim>\<open>link\<close> and \<^verbatim>\<open>script\<close> element,
  the empty string where the attribute is missing), it returns exactly the values of
  \<^verbatim>\<open>a[href]\<close>, \<^verbatim>\<open>img[src]\<close>, \<^verbatim>\<open>link[href]\<close> and \<^verbatim>\<open>script[src]\<close>, grouped in that order and in document
  order within a group, whose parsed host equals \<open>host\<close>, with a nil error.  If one of those
  strings does not parse, the process ends through \<^verbatim>\<open>log.Fatal\<close> with the error of the first such
  string, and nothing is returned.
\<close>

theorem ExtractURLs_result:
  "(NewDocumentFromReader body = Inl err \<longrightarrow>
      ExtractURLs NewDocumentFromReader Parse body host = Done (Slice [], Some err)) \<and>
   (NewDocumentFromReader body = Inr document \<and> list_all (parses Parse) (examined document) \<longrightarrow>
      ExtractURLs NewDocumentFromReader Parse body host =
        Done (Slice (concat (map (wanted Parse document host) urlElementMatches)), None)) \<and>
   (NewDocumentFromReader body = Inr document \<and> \<not> list_all (parses Parse) (examined document) \<longrightarrow>
      (\<exists>e. Parse (hd (filter (\<lambda>h. \<not> parses Parse h) (examined document))) = Inl e \<and>
         ExtractURLs NewDocumentFromReader Parse body host = Fatal e))"
proof (intro conjI impI)
  assume "NewDocumentFromReader body = Inl err"
  then show "ExtractURLs NewDocumentFromReader Parse body host = Done (Slice [], Some err)"
    by (simp add: ExtractURLs_def)
next
  assume a: "NewDocumentFromReader body = Inr document \<and> list_all (parses Parse) (examined document)"
  then have "range_matches Parse document host urlElementMatches (Slice []) =
     Done (Slice ([] @ concat (map (wanted Parse document host) urlElementMatches)))"
    unfolding examined_def by (intro range_matches_ok) simp
  with a show "ExtractURLs NewDocumentFromReader Parse body host =
        Done (Slice (concat (map (wanted Parse document host) urlElementMatches)), None)"
    by (simp add: ExtractURLs_def)
next
  assume a: "NewDocumentFromReader body = Inr document \<and> \<not> list_all (parses Parse) (examined document)"
  then have "\<exists>err. Parse (hd (filter (\<lambda>h. \<not> parses Parse h)
       (concat (map (\<lambda>m. map (\<lambda>e. fst (Attr e (snd m))) (Find document (fst m))) urlElementMatches)))) = Inl err \<and>
     range_matches Parse document host urlElementMatches (Slice []) = Fatal err"
    unfolding examined_def by (intro range_matches_fatal) simp
  with a show "\<exists>e. Parse (hd (filter (\<lambda>h. \<not> parses Parse h) (examined document))) = Inl e \<and>
         ExtractURLs NewDocumentFromReader Parse body host = Fatal e"
    by (auto simp: ExtractURLs_def examined_def)
qed

text \<open>The theorem at three runs: a failing reader, a page whose URLs all parse, and a page with
  a link that does not parse.\<close>

lemma sample_examined: "list_all (parses Parse_sample) (examined sample_page)"
  by (simp add: examined_def sample_page_def urlElementMatches_def parses_def Parse_sample_def)

lemma broken_examined: "\<not> list_all (parses Parse_sample) (examined broken_page)"
  by (simp add: examined_def broken_page_def urlElementMatches_def parses_def Parse_sample_def)

lemma sample_wanted: "concat (map (wanted Parse_sample sample_page ''www.gov.uk'') urlElementMatches)
  = [''http://www.gov.uk/help'', ''http://www.gov.uk/logo.png'', ''http://www.gov.uk/app.js'']"
  by (simp add: wanted_def sample_page_def urlElementMatches_def same_host_def Parse_sample_def)

theorem ExtractURLs_result_witness:
  "ExtractURLs Inl Parse_sample ''read error'' ''www.gov.uk'' = Done (Slice [], Some ''read error'') \<and>
   list_all (parses Parse_sample) (examined sample_page) \<and>
   ExtractURLs Inr Parse_sample sample_page ''www.gov.uk'' =
     Done (Slice [''http://www.gov.uk/help'', ''http://www.gov.uk/logo.png'',
                  ''http://www.gov.uk/app.js''], None) \<and>
   \<not> list_all (parses Parse_sample) (examined broken_page) \<and>
   ExtractURLs Inr Parse_sample broken_page ''www.gov.uk'' = Fatal ''missing protocol scheme''"
proof -
  have 1: "ExtractURLs Inl Parse_sample ''read error'' ''www.gov.uk'' = Done (Slice [], Some ''read error'')"
    using ExtractURLs_result [of Inl "''read error''" "''read error''" Parse_sample "''www.gov.uk''"]
    by simp
  have 2: "ExtractURLs Inr Parse_sample sample_page ''www.gov.uk'' =
     Done (Slice [''http://www.gov.uk/help'', ''http://www.gov.uk/logo.png'',
                  ''http://www.gov.uk/app.js''], None)"
    using ExtractURLs_result [of Inr sample_page _ Parse_sample "''www.gov.uk''" sample_page]
      sample_examined sample_wanted by simp
  have "\<exists>e. Parse_sample (hd (filter (\<lambda>h. \<not> parses Parse_sample h) (examined broken_page))) = Inl e \<and>
         ExtractURLs Inr Parse_sample broken_page ''www.gov.uk'' = Fatal e"
    using ExtractURLs_result [of Inr broken_page _ Parse_sample "''www.gov.uk''" broken_page]
      broken_examined by simp
  moreover have "hd (filter (\<lambda>h. \<not> parses Parse_sample h) (examined broken_page)) = '':''"
    by (simp add: examined_def broken_page_def urlElementMatches_def parses_def Parse_sample_def)
  ultimately have 3: "ExtractURLs Inr Parse_sample broken_page ''www.gov.uk'' = Fatal ''missing protocol scheme''"
    by (auto simp: Parse_sample_def)
  from 1 2 3 sample_examined broken_examined show ?thesis by simp
qed

text \<open>
  Claim C10 as stated fails for a page with the link \<^verbatim>\<open><a href=":">\<close>: the values to return
  for the host would be the one link of that host, but the call ends the process instead of
  returning.
\<close>

theorem ExtractURLs_returns_counterexample:
  "ExtractURLs Inr Parse_sample broken_page ''www.gov.uk'' = Fatal ''missing protocol scheme'' \<and>
   concat (map (wanted Parse_sample broken_page ''www.gov.uk'') urlElementMatches) =
     [''http://www.gov.uk/help'']"
  by (simp add: ExtractURLs_def urlElementMatches_def findByElementAttribute_def broken_page_def
      Parse_sample_def append_one_def append_slice_def wanted_def same_host_def)

section \<open>Properties of the broker connection\<close>

text \<open>
  Claim C9, as the code has it.  \<^verbatim>\<open>Close\<close> calls \<^verbatim>\<open>Channel.Close\<close> first, in every case.  When
  that call fails, \<^verbatim>\<open>Close\<close> returns its error at once and makes no further call: the
  connection is not closed.  When it succeeds, \<^verbatim>\<open>Close\<close> calls \<^verbatim>\<open>Connection.Close\<close> next and
  returns what that call returns.  So the channel closure always comes first, and the failure
  of a closure that was attempted reaches the caller.
\<close>

theorem Close_channel_then_connection:
  "fst (Close c) = (case channel_close c of Some e \<Rightarrow> Some e | None \<Rightarrow> connection_close c) \<and>
   calls (snd (Close c)) =
     calls c @ (case channel_close c of Some e \<Rightarrow> [ChannelClose]
                | None \<Rightarrow> [ChannelClose, ConnectionClose])"
  by (simp add: Close_def Channel_Close_def Connection_Close_def split: option.splits)

text \<open>
  Claim C9 as stated fails when the channel does not close: \<^verbatim>\<open>Close\<close> returns the channel's
  error after the one call \<^verbatim>\<open>Channel.Close\<close>, and the connection closure is never performed.
\<close>

theorem Close_skips_connection_counterexample:
  "Close ((healthy [] [])\<lparr>channel_close := Some ''channel/connection is not open''\<rparr>) =
     (Some ''channel/connection is not open'',
      (healthy [] [])\<lparr>channel_close := Some ''channel/connection is not open'',
                       calls := [ChannelClose]\<rparr>)"
  by (simp add: Close_def Channel_Close_def healthy_def)

lemma received_calls [simp]: "received pick (c\<lparr>calls := x\<rparr>) = received pick c"
  by (simp add: received_def select_confirm_def split: list.splits)

lemma publisherConfirm_acked:
  "received pick c = Some (Acked t) \<Longrightarrow>
   publisherConfirm pick c =
     (case channel_ack c t of
        Some e \<Rightarrow> Fatal (''Couldn't ack:'', t, e)
      | None \<Rightarrow> Done (c\<lparr>ack := tl (ack c),
                        calls := calls c @ [LogPrintln ''Acknowledge message publish:'' t,
                                            ChannelAck t False]\<rparr>))"
  by (auto simp: received_def publisherConfirm_def select_confirm_def log_Println_def
      Channel_Ack_def split: list.splits if_splits option.splits)

lemma publisherConfirm_nacked:
  "received pick c = Some (Nacked t) \<Longrightarrow>
   publisherConfirm pick c =
     (case channel_nack c t of
        Some e \<Rightarrow> Fatal (''Couldn't nack:'', t, e)
      | None \<Rightarrow> Done (c\<lparr>nack := tl (nack c),
                        calls := calls c @ [LogPrintln ''Couldn't acknowledge message publish:'' t,
                                            ChannelNack t False True]\<rparr>))"
  by (auto simp: received_def publisherConfirm_def select_confirm_def log_Println_def
      Channel_Nack_def split: list.splits if_splits option.splits)

lemma publisherConfirm_blocked:
  "received pick c = None \<Longrightarrow> publisherConfirm pick c = Blocked"
  by (auto simp: received_def publisherConfirm_def)

text \<open>
  Claim C2, as the code has it.  When the \<^verbatim>\<open>Ack\<close> call (for a received ack) or the \<^verbatim>\<open>Nack\<close> call
  (for a received nack) made while handling the confirm fails, \<^verbatim>\<open>Publish\<close> does not return:
  the process ends through \<^verbatim>\<open>log.Fatal\<close>, which is given the message, the tag and the error.
\<close>

theorem Publish_confirm_failure_fatal:
  "(received pick c = Some (Acked t) \<and> channel_ack c t = Some e \<longrightarrow>
      Publish pick c exchangeName routingKey contentType body = Fatal (''Couldn't ack:'', t, e)) \<and>
   (received pick c = Some (Nacked t) \<and> channel_nack c t = Some e \<longrightarrow>
      Publish pick c exchangeName routingKey contentType body = Fatal (''Couldn't nack:'', t, e))"
  by (simp add: Publish_def Channel_Publish_def publisherConfirm_acked publisherConfirm_nacked)

theorem Publish_confirm_failure_fatal_witness:
  "received True ((healthy [1] [])\<lparr>channel_ack := (\<lambda>t. Some ''channel closed'')\<rparr>) = Some (Acked 1) \<and>
   Publish True ((healthy [1] [])\<lparr>channel_ack := (\<lambda>t. Some ''channel closed'')\<rparr>)
     ''crawl'' ''#'' ''text/plain'' ''https://www.gov.uk/'' =
     Fatal (''Couldn't ack:'', 1, ''channel closed'') \<and>
   received True ((healthy [] [1])\<lparr>channel_nack := (\<lambda>t. Some ''channel closed'')\<rparr>) = Some (Nacked 1) \<and>
   Publish True ((healthy [] [1])\<lparr>channel_nack := (\<lambda>t. Some ''channel closed'')\<rparr>)
     ''crawl'' ''#'' ''text/plain'' ''https://www.gov.uk/'' =
     Fatal (''Couldn't nack:'', 1, ''channel closed'')"
proof -
  have a: "received True ((healthy [1] [])\<lparr>channel_ack := (\<lambda>t. Some ''channel closed'')\<rparr>) = Some (Acked 1)"
    by (simp add: received_def select_confirm_def healthy_def)
  have b: "received True ((healthy [] [1])\<lparr>channel_nack := (\<lambda>t. Some ''channel closed'')\<rparr>) = Some (Nacked 1)"
    by (simp add: received_def select_confirm_def healthy_def)
  from a b
    Publish_confirm_failure_fatal [of True "(healthy [1] [])\<lparr>channel_ack := (\<lambda>t. Some ''channel closed'')\<rparr>"
      1 "''channel closed''"]
    Publish_confirm_failure_fatal [of True "(healthy [] [1])\<lparr>channel_nack := (\<lambda>t. Some ''channel closed'')\<rparr>"
      1 "''channel closed''"]
  show ?thesis by simp
qed

text \<open>
  Claim C2 as stated fails: with an ack for tag 1 waiting and a failing \<^verbatim>\<open>Channel.Ack\<close>, the call
  ends the process and returns no error to its caller.
\<close>

theorem Publish_confirm_failure_counterexample:
  "Publish True ((healthy [1] [])\<lparr>channel_ack := (\<lambda>t. Some ''channel closed'')\<rparr>)
     ''crawl'' ''#'' ''text/plain'' ''https://www.gov.uk/'' =
     Fatal (''Couldn't ack:'', 1, ''channel closed'')"
  by (simp add: Publish_def Channel_Publish_def publisherConfirm_def select_confirm_def
      healthy_def log_Println_def Channel_Ack_def)

text \<open>
  Claim C3, as the code has it.  When the confirm received is an ack and \<^verbatim>\<open>Channel.Ack(tag, false)\<close>
  succeeds, \<^verbatim>\<open>Publish\<close> returns what \<^verbatim>\<open>Channel.Publish\<close> returned (nil when the publish went out).
  When the confirm received is a nack, \<^verbatim>\<open>Publish\<close> calls \<^verbatim>\<open>Channel.Nack(tag, false, true)\<close>, that
  is with requeue set and for that tag alone, and, when that call succeeds, returns what
  \<^verbatim>\<open>Channel.Publish\<close> returned as well: the nack does not become an error.
\<close>

theorem Publish_returns_publish_result:
  "(received pick c = Some (Acked t) \<and> channel_ack c t = None \<longrightarrow>
      (\<exists>c'. Publish pick c exchangeName routingKey contentType body = Done (channel_publish c, c') \<and>
            calls c' = calls c @ [published_call exchangeName routingKey contentType body,
                                  LogPrintln ''Acknowledge message publish:'' t,
                                  ChannelAck t False])) \<and>
   (received pick c = Some (Nacked t) \<and> channel_nack c t = None \<longrightarrow>
      (\<exists>c'. Publish pick c exchangeName routingKey contentType body = Done (channel_publish c, c') \<and>
            calls c' = calls c @ [published_call exchangeName routingKey contentType body,
                                  LogPrintln ''Couldn't acknowledge message publish:'' t,
                                  ChannelNack t False True]))"
  by (simp add: Publish_def Channel_Publish_def publisherConfirm_acked publisherConfirm_nacked
      published_call_def)

theorem Publish_returns_publish_result_witness:
  "received True (healthy [1] []) = Some (Acked 1) \<and> channel_ack (healthy [1] []) 1 = None \<and>
   (\<exists>c'. Publish True (healthy [1] []) ''crawl'' ''#'' ''text/plain'' ''https://www.gov.uk/'' =
            Done (None, c') \<and>
          calls c' = [published_call ''crawl'' ''#'' ''text/plain'' ''https://www.gov.uk/'',
                      LogPrintln ''Acknowledge message publish:'' 1, ChannelAck 1 False]) \<and>
   received True (healthy [] [1]) = Some (Nacked 1) \<and> channel_nack (healthy [] [1]) 1 = None \<and>
   (\<exists>c'. Publish True (healthy [] [1]) ''crawl'' ''#'' ''text/plain'' ''https://www.gov.uk/'' =
            Done (None, c') \<and>
          calls c' = [published_call ''crawl'' ''#'' ''text/plain'' ''https://www.gov.uk/'',
                      LogPrintln ''Couldn't acknowledge message publish:'' 1,
                      ChannelNack 1 False True])"
proof -
  have a: "received True (healthy [1] []) = Some (Acked 1)"
    by (simp add: received_def select_confirm_def healthy_def)
  have b: "received True (healthy [] [1]) = Some (Nacked 1)"
    by (simp add: received_def select_confirm_def healthy_def)
  have c: "channel_ack (healthy [1] []) 1 = None" "channel_nack (healthy [] [1]) 1 = None"
    "channel_publish (healthy [1] []) = None" "channel_publish (healthy [] [1]) = None"
    "calls (healthy [1] []) = []" "calls (healthy [] [1]) = []"
    by (simp_all add: healthy_def)
  from a b c
    Publish_returns_publish_result [of True "healthy [1] []" 1 "''crawl''" "''#''" "''text/plain''"
      "''https://www.gov.uk/''"]
    Publish_returns_publish_result [of True "healthy [] [1]" 1 "''crawl''" "''#''" "''text/plain''"
      "''https://www.gov.uk/''"]
  show ?thesis by simp
qed

text \<open>
  Claim C3 as stated fails: with a nack for tag 1 waiting, \<^verbatim>\<open>Publish\<close> asks for the requeue and
  returns nil.
\<close>

theorem Publish_nack_returns_nil_counterexample:
  "Publish True (healthy [] [1]) ''crawl'' ''#'' ''text/plain'' ''https://www.gov.uk/'' =
     Done (None, (healthy [] [])\<lparr>calls :=
       [published_call ''crawl'' ''#'' ''text/plain'' ''https://www.gov.uk/'',
        LogPrintln ''Couldn't acknowledge message publish:'' 1, ChannelNack 1 False True]\<rparr>)"
  by (simp add: Publish_def Channel_Publish_def publisherConfirm_def select_confirm_def
      healthy_def log_Println_def Channel_Nack_def published_call_def)

section \<open>Any number of calls of Publish on one connection\<close>

lemma first_tags_0 [simp]: "first_tags 0 = []"
  by (simp add: first_tags_def)

lemma first_tags_Suc [simp]: "first_tags (Suc n) = first_tags n @ [of_nat (Suc n)]"
  by (simp add: first_tags_def)

lemma consistent_start:
  "ack c = [] \<Longrightarrow> nack c = [] \<Longrightarrow> consistent (start c)"
  by (simp add: consistent_def start_def handled_def owned_def)

lemma select_confirm_chans:
  "select_confirm pick c = Some (cf, c1) \<Longrightarrow>
   mset (map Acked (ack c)) + mset (map Nacked (nack c)) =
     {#cf#} + mset (map Acked (ack c1)) + mset (map Nacked (nack c1))"
  by (auto simp: select_confirm_def split: list.splits if_splits)

lemma publisherConfirm_chans:
  "select_confirm pick c = Some (cf, c1) \<Longrightarrow> publisherConfirm pick c = Done c2 \<Longrightarrow>
   ack c2 = ack c1 \<and> nack c2 = nack c1"
  by (cases cf)
     (auto simp: publisherConfirm_def log_Println_def Channel_Ack_def Channel_Nack_def Let_def
       split: option.splits)

lemma concat_map_update:
  "i < length xs \<Longrightarrow>
   mset (concat (map f (xs[i := p]))) + mset (f (xs ! i)) = mset (concat (map f xs)) + mset (f p)"
proof (induction xs arbitrary: i)
  case Nil
  then show ?case by simp
next
  case (Cons x xs)
  then show ?case by (cases i) auto
qed

lemma nth_concat_map:
  "j < length xs \<Longrightarrow> mset (f (xs ! j)) \<subseteq># mset (concat (map f xs))"
proof (induction xs arbitrary: j)
  case Nil
  then show ?case by simp
next
  case (Cons x xs)
  show ?case
  proof (cases j)
    case 0
    then show ?thesis by simp
  next
    case (Suc k)
    with Cons.prems have "k < length xs" by simp
    from Cons.IH [OF this] Suc show ?thesis
      by (simp add: subset_mset.add_increasing)
  qed
qed

lemma nth_pair_concat_map:
  "i < j \<Longrightarrow> j < length xs \<Longrightarrow>
   mset (f (xs ! i)) + mset (f (xs ! j)) \<subseteq># mset (concat (map f xs))"
proof (induction xs arbitrary: i j)
  case Nil
  then show ?case by simp
next
  case (Cons x xs)
  from Cons.prems obtain k where j: "j = Suc k" and k: "k < length xs"
    by (cases j) simp_all
  show ?case
  proof (cases i)
    case 0
    with j nth_concat_map [OF k, of f] show ?thesis
      by (simp add: subset_mset.add_mono)
  next
    case (Suc h)
    with Cons.prems j have "h < k" by simp
    from Cons.IH [OF this k] Suc j show ?thesis
      by (simp add: subset_mset.add_increasing)
  qed
qed

lemma consistent_publish:
  assumes "consistent s" "step (DoPublish answer e k t b) s = Some s'"
  shows "consistent s'"
proof (cases answer)
  case None
  with assms(2) have s': "s' = s\<lparr>conn := (conn s)\<lparr>channel_publish := None,
        calls := calls (conn s) @ [published_call e k t b]\<rparr>,
      seq := seq s + 1, unconfirmed := unconfirmed s @ [seq s + 1],
      progress := progress s @ [Waiting (Some (seq s + 1)) None]\<rparr>"
    by (simp add: Channel_Publish_def published_call_def)
  from assms(1) have a: "list_all started_ok (progress s)"
    and b: "mset (delivered s) =
        mset (map Acked (ack (conn s))) + mset (map Nacked (nack (conn s))) + mset (handled s)"
    and c: "mset (map tag_of (delivered s)) + mset (unconfirmed s) = mset (owned s)"
    and d: "owned s = first_tags (length (owned s))"
    and e: "seq s = of_nat (length (owned s))"
    unfolding consistent_def by blast+
  have o: "owned s' = owned s @ [seq s + 1]" and h: "handled s' = handled s"
    unfolding s' by (simp_all add: owned_def handled_def)
  have "owned s' = first_tags (length (owned s'))"
    unfolding o using d e by simp
  moreover have "seq s' = of_nat (length (owned s'))"
    unfolding o using e by (simp add: s')
  moreover have "mset (map tag_of (delivered s')) + mset (unconfirmed s') = mset (owned s')"
    unfolding o using c by (simp add: s')
  moreover have "mset (delivered s') =
        mset (map Acked (ack (conn s'))) + mset (map Nacked (nack (conn s'))) + mset (handled s')"
    unfolding h using b by (simp add: s')
  moreover have "list_all started_ok (progress s')"
    using a by (simp add: s' started_ok_def)
  ultimately show ?thesis unfolding consistent_def by blast
next
  case (Some err)
  with assms(2) have s': "s' = s\<lparr>conn := (conn s)\<lparr>channel_publish := Some err,
        calls := calls (conn s) @ [published_call e k t b]\<rparr>,
      progress := progress s @ [Waiting None (Some err)]\<rparr>"
    by (simp add: Channel_Publish_def published_call_def)
  from assms(1) have a: "list_all started_ok (progress s)"
    and b: "mset (delivered s) =
        mset (map Acked (ack (conn s))) + mset (map Nacked (nack (conn s))) + mset (handled s)"
    and c: "mset (map tag_of (delivered s)) + mset (unconfirmed s) = mset (owned s)"
    and d: "owned s = first_tags (length (owned s))"
    and e: "seq s = of_nat (length (owned s))"
    unfolding consistent_def by blast+
  have o: "owned s' = owned s" and h: "handled s' = handled s"
    unfolding s' by (simp_all add: owned_def handled_def)
  have z: "delivered s' = delivered s" "unconfirmed s' = unconfirmed s" "seq s' = seq s"
    "ack (conn s') = ack (conn s)" "nack (conn s') = nack (conn s)"
    unfolding s' by simp_all
  have "list_all started_ok (progress s')"
    using a by (simp add: s' started_ok_def)
  then show ?thesis
    unfolding consistent_def o h z using b c d e by blast
qed

lemma consistent_confirm:
  assumes "consistent s" "step (BrokerConfirm t ok) s = Some s'"
  shows "consistent s'"
proof -
  from assms(2) have t: "t \<in> set (unconfirmed s)"
    by (auto split: if_splits)
  then have r: "add_mset t (mset (remove1 t (unconfirmed s))) = mset (unconfirmed s)"
    by simp
  from assms(2) t have s': "s' = s\<lparr>conn := (if ok then (conn s)\<lparr>ack := ack (conn s) @ [t]\<rparr>
                              else (conn s)\<lparr>nack := nack (conn s) @ [t]\<rparr>),
                   unconfirmed := remove1 t (unconfirmed s),
                   delivered := delivered s @ [if ok then Acked t else Nacked t]\<rparr>"
    by (auto split: if_splits)
  from assms(1) have a: "list_all started_ok (progress s)"
    and b: "mset (delivered s) =
        mset (map Acked (ack (conn s))) + mset (map Nacked (nack (conn s))) + mset (handled s)"
    and c: "mset (map tag_of (delivered s)) + mset (unconfirmed s) = mset (owned s)"
    and d: "owned s = first_tags (length (owned s))"
    and e: "seq s = of_nat (length (owned s))"
    unfolding consistent_def by blast+
  have o: "owned s' = owned s" and h: "handled s' = handled s" and p: "progress s' = progress s"
    and q: "seq s' = seq s"
    unfolding s' by (simp_all add: owned_def handled_def)
  have "mset (delivered s') =
        mset (map Acked (ack (conn s'))) + mset (map Nacked (nack (conn s'))) + mset (handled s')"
    unfolding h using b by (simp add: s')
  moreover have "mset (map tag_of (delivered s')) + mset (unconfirmed s') =
      mset (map tag_of (delivered s)) + add_mset t (mset (remove1 t (unconfirmed s)))"
    by (simp add: s')
  then have "mset (map tag_of (delivered s')) + mset (unconfirmed s') = mset (owned s')"
    unfolding o r using c by (simp only:)
  ultimately show ?thesis
    unfolding consistent_def o p q using a d e by blast
qed

lemma consistent_receive:
  assumes "consistent s" "step (DoReceive i pick) s = Some s'"
  shows "consistent s'"
proof -
  from assms(2) have i: "i < length (progress s)"
    by (auto split: if_splits)
  from assms(2) i obtain own err where w: "progress s ! i = Waiting own err"
    by (auto split: progress.splits)
  from assms(2) i w obtain cf c1 c2 where sel: "select_confirm pick (conn s) = Some (cf, c1)"
    and pc: "publisherConfirm pick (conn s) = Done c2"
    and s': "s' = s\<lparr>conn := c2, progress := (progress s)[i := Finished own err cf]\<rparr>"
    by (auto split: option.splits exec.splits prod.splits)
  note x = select_confirm_chans [OF sel] and y = publisherConfirm_chans [OF sel pc]
  from assms(1) have a: "list_all started_ok (progress s)"
    and b: "mset (delivered s) =
        mset (map Acked (ack (conn s))) + mset (map Nacked (nack (conn s))) + mset (handled s)"
    and c: "mset (map tag_of (delivered s)) + mset (unconfirmed s) = mset (owned s)"
    and d: "owned s = first_tags (length (owned s))"
    and e: "seq s = of_nat (length (owned s))"
    unfolding consistent_def by blast+
  have "map own_tag ((progress s)[i := Finished own err cf]) = map own_tag (progress s)"
    using i w by (simp add: map_update list_update_same_conv)
  then have o: "owned s' = owned s"
    unfolding s' by (simp add: owned_def)
  have h: "mset (handled s') = mset (handled s) + {#cf#}"
    using concat_map_update [OF i, of handled_by "Finished own err cf"] w
    unfolding s' by (simp add: handled_def)
  have k: "list_all started_ok (progress s')"
  proof -
    from a i w have "started_ok (Waiting own err)"
      by (metis list_all_length)
    then have "started_ok (Finished own err cf)" by (simp add: started_ok_def)
    with a show ?thesis
      unfolding s' by (auto simp: list_all_iff dest: set_update_subset_insert [THEN subsetD])
  qed
  have z: "conn s' = c2" "delivered s' = delivered s" "unconfirmed s' = unconfirmed s" "seq s' = seq s"
    unfolding s' by simp_all
  have "mset (delivered s') =
        mset (map Acked (ack (conn s'))) + mset (map Nacked (nack (conn s'))) + mset (handled s')"
    unfolding z h using b x y by simp
  then show ?thesis
    unfolding consistent_def o using k c d e z by simp
qed

lemma consistent_step: "consistent s \<Longrightarrow> step e s = Some s' \<Longrightarrow> consistent s'"
  by (cases e) (blast intro: consistent_publish consistent_confirm consistent_receive)+

lemma consistent_run: "consistent s \<Longrightarrow> run evs s = Some s' \<Longrightarrow> consistent s'"
proof (induction evs arbitrary: s)
  case Nil
  then show ?case by simp
next
  case (Cons e evs)
  then show ?case by (auto split: option.splits dest: consistent_step)
qed

lemma length_handled_finished:
  "list_all is_finished xs \<Longrightarrow> length (concat (map handled_by xs)) = length xs"
proof (induction xs)
  case Nil
  then show ?case by simp
next
  case (Cons x xs)
  then show ?case by (cases x) simp_all
qed

lemma length_owned_le: "length (concat (map own_tag xs)) \<le> length xs"
proof (induction xs)
  case Nil
  then show ?case by simp
next
  case (Cons x xs)
  then show ?case by (cases x) (auto split: option.splits)
qed

text \<open>
  The two steps of a call, taken one after the other with nothing in between, are the function
  \<^verbatim>\<open>Publish\<close>: the same connection results and the call finishes with the value \<^verbatim>\<open>Publish\<close>
  returns.
\<close>

lemma steps_are_Publish:
  assumes "Publish pick (conn s) exchangeName routingKey contentType body = Done (err, c')"
  shows "\<exists>s' own cf.
           run [DoPublish (channel_publish (conn s)) exchangeName routingKey contentType body,
                DoReceive (length (progress s)) pick] s = Some s' \<and>
           conn s' = c' \<and> progress s' ! length (progress s) = Finished own err cf"
proof -
  define c1 where "c1 = (conn s)\<lparr>calls := calls (conn s) @ [published_call exchangeName routingKey contentType body]\<rparr>"
  from assms have e: "err = channel_publish (conn s)" and p: "publisherConfirm pick c1 = Done c'"
    by (auto simp: Publish_def Channel_Publish_def c1_def published_call_def split: exec.splits)
  from p obtain cf c2 where sel: "select_confirm pick c1 = Some (cf, c2)"
    by (auto simp: publisherConfirm_def split: option.splits)
  have u: "(conn s)\<lparr>channel_publish := channel_publish (conn s)\<rparr> = conn s"
    by simp
  have "Channel_Publish (conn s) exchangeName routingKey False False
      \<lparr>Headers = [], ContentType = contentType, ContentEncoding = '''', Body = body,
       DeliveryMode = Persistent, Priority = 0\<rparr> = (err, c1)"
    by (simp add: Channel_Publish_def c1_def published_call_def e)
  then show ?thesis
    using p sel unfolding u
    by (cases err) (simp_all add: u)
qed

text \<open>
  Claim C1, as the code has it.  Take any number of calls of \<^verbatim>\<open>Publish\<close> on one connection, as
  \<^verbatim>\<open>NewQueueConnection\<close> returns it, interleaved in any way with each other and with the broker,
  and any two of them that have returned.  The confirms they handled are two different confirms
  that the broker sent on this connection; every confirm the broker sent answers a publish that
  went out on this connection, and these publishes carry the tags 1, 2, ... in order.  Each of
  the two calls returns nil exactly when its own publish went out, whatever confirm it handled.
  When every call made has returned, the confirms handled are exactly the confirms sent, one for
  each publish that went out.  Which call handles which confirm is left open: a call takes the
  confirm that waits on the channels when it receives, whatever its tag.
\<close>

theorem two_publishes_share_confirms:
  assumes "NewQueueConnection dial open_channel confirm_mode lib = Inr c"
    and "run evs (start c) = Some s"
    and "i < j" "j < length (progress s)"
    and "progress s ! i = Finished o1 e1 c1" "progress s ! j = Finished o2 e2 c2"
  shows "{#c1, c2#} \<subseteq># mset (delivered s) \<and>
         mset (map tag_of (delivered s)) \<subseteq># mset (owned s) \<and>
         owned s = first_tags (length (owned s)) \<and>
         (e1 = None) = (o1 \<noteq> None) \<and> (e2 = None) = (o2 \<noteq> None) \<and>
         (list_all is_finished (progress s) \<longrightarrow>
            mset (handled s) = mset (delivered s) \<and>
            mset (map tag_of (handled s)) = mset (owned s))"
proof -
  from assms(1) have "ack c = []" "nack c = []"
    by (auto simp: NewQueueConnection_def split: option.splits)
  then have cs: "consistent s"
    using consistent_run [OF consistent_start assms(2)] by blast
  then have a: "list_all started_ok (progress s)"
    and b: "mset (delivered s) =
        mset (map Acked (ack (conn s))) + mset (map Nacked (nack (conn s))) + mset (handled s)"
    and c: "mset (map tag_of (delivered s)) + mset (unconfirmed s) = mset (owned s)"
    and d: "owned s = first_tags (length (owned s))"
    unfolding consistent_def by blast+
  from assms(3,4) have i: "i < length (progress s)" by simp
  from nth_pair_concat_map [OF assms(3,4), of handled_by] assms(5,6)
  have "{#c1, c2#} \<subseteq># mset (handled s)"
    by (simp add: handled_def add_mset_commute)
  also have "mset (handled s) \<subseteq># mset (delivered s)"
    unfolding b by simp
  finally have 1: "{#c1, c2#} \<subseteq># mset (delivered s)" .
  have 2: "mset (map tag_of (delivered s)) \<subseteq># mset (owned s)"
    unfolding c [symmetric] by simp
  from a i assms(5) have "started_ok (Finished o1 e1 c1)"
    by (metis list_all_length)
  then have 3: "(e1 = None) = (o1 \<noteq> None)" by (simp add: started_ok_def)
  from a assms(4,6) have "started_ok (Finished o2 e2 c2)"
    by (metis list_all_length)
  then have 4: "(e2 = None) = (o2 \<noteq> None)" by (simp add: started_ok_def)
  have 5: "mset (handled s) = mset (delivered s) \<and> mset (map tag_of (handled s)) = mset (owned s)"
    if f: "list_all is_finished (progress s)"
  proof -
    from length_handled_finished [OF f] have lh: "length (handled s) = length (progress s)"
      by (simp add: handled_def)
    have lo: "length (owned s) \<le> length (progress s)"
      using length_owned_le [of "progress s"] by (simp add: owned_def)
    from b have "size (mset (delivered s)) =
        size (mset (map Acked (ack (conn s))) + mset (map Nacked (nack (conn s))) + mset (handled s))"
      by (simp only:)
    then have sb: "length (delivered s) = length (ack (conn s)) + length (nack (conn s)) + length (handled s)"
      by simp
    from c have "size (mset (map tag_of (delivered s)) + mset (unconfirmed s)) = size (mset (owned s))"
      by (simp only:)
    then have sc: "length (delivered s) + length (unconfirmed s) = length (owned s)"
      by simp
    from lh lo sb sc have "length (ack (conn s)) = 0" "length (nack (conn s)) = 0"
      "length (unconfirmed s) = 0"
      by linarith+
    then have z: "ack (conn s) = []" "nack (conn s) = []" "unconfirmed s = []"
      by simp_all
    from b z have hd: "mset (handled s) = mset (delivered s)" by simp
    from c z have "mset (map tag_of (delivered s)) = mset (owned s)" by simp
    with hd show ?thesis by (metis mset_map)
  qed
  from 1 2 3 4 5 d show ?thesis by blast
qed

lemmas run_defs = in_order_def reversed_def three_calls_def start_def healthy_def
  Channel_Publish_def publisherConfirm_def select_confirm_def log_Println_def Channel_Ack_def
  Channel_Nack_def

text \<open>
  The theorem on the schedule \<open>three_calls\<close>: calls 0 and 1 have returned, having handled the
  ack of tag 1 and the nack of tag 3, which are two of the confirms sent; the publish of call 1,
  with tag 2, has no confirm.
\<close>

theorem two_publishes_share_confirms_witness:
  "NewQueueConnection None None None (healthy [] []) = Inr (healthy [] []) \<and>
   (\<exists>s. run three_calls (start (healthy [] [])) = Some s \<and> (0::nat) < 1 \<and>
       1 < length (progress s) \<and>
       progress s ! 0 = Finished (Some 1) None (Acked 1) \<and>
       progress s ! 1 = Finished (Some 2) None (Nacked 3) \<and>
       {#Acked 1, Nacked 3#} \<subseteq># mset (delivered s) \<and>
       owned s = first_tags (length (owned s)))"
proof -
  have "\<exists>s. run three_calls (start (healthy [] [])) = Some s \<and>
       1 < length (progress s) \<and>
       progress s ! 0 = Finished (Some 1) None (Acked 1) \<and>
       progress s ! 1 = Finished (Some 2) None (Nacked 3)"
    by (simp add: run_defs)
  then obtain s where r: "run three_calls (start (healthy [] [])) = Some s"
    and l: "1 < length (progress s)"
    and p: "progress s ! 0 = Finished (Some 1) None (Acked 1)"
      "progress s ! 1 = Finished (Some 2) None (Nacked 3)"
    by blast
  have h: "NewQueueConnection None None None (healthy [] []) = Inr (healthy [] [])"
    by (simp add: NewQueueConnection_def healthy_def)
  have z: "(0::nat) < 1" by simp
  from two_publishes_share_confirms [OF h r z l p] r l p h z show ?thesis by blast
qed

text \<open>
  Claim C1 as stated fails on the schedule \<open>reversed\<close>: the broker nacks tag 2 and then acks
  tag 1; call 0, whose publish has tag 1 and is acked, handles the nack of tag 2, and call 1,
  whose publish is nacked, handles the ack of tag 1.
\<close>

theorem two_publishes_reversed_counterexample:
  "map_option progress (run reversed (start (healthy [] []))) =
     Some [Finished (Some 1) None (Nacked 2), Finished (Some 2) None (Acked 1)] \<and>
   map_option delivered (run reversed (start (healthy [] []))) = Some [Nacked 2, Acked 1]"
  by (simp add: run_defs)

section \<open>Properties of the dedup store client\<close>

lemma tick_connected: "state c = Connected \<Longrightarrow> tick (c, w) = (c, w\<lparr>now := now w + 1\<rparr>)"
  by (simp add: tick_def supervise_def)

lemma elapse_connected: "state c = Connected \<Longrightarrow> elapse n (c, w) = (c, w\<lparr>now := now w + n\<rparr>)"
proof (induction n arbitrary: w)
  case 0
  then show ?case by simp
next
  case (Suc n)
  then show ?case by (simp add: tick_connected)
qed

lemma attempt_connected: "state c = Connected \<Longrightarrow> link_ok w \<Longrightarrow> attempt c w = (None, c)"
  by (simp add: attempt_def)

lemma attempt_broken:
  "state c = Connected \<Longrightarrow> \<not> link_ok w \<Longrightarrow>
   attempt c w = (Some TransportError, c\<lparr>state := Reconnecting, next_dial := now w\<rparr>)"
  by (simp add: attempt_def)

lemma attempt_reconnecting: "state c = Reconnecting \<Longrightarrow> attempt c w = (Some ReconnectingError, c)"
  by (simp add: attempt_def)

text \<open>
  Claim C8.  When the one dial attempt of the constructor fails (nothing listens at the address),
  the constructor returns a ConnectionError and no client, and it has dialled exactly once.
\<close>

theorem NewTTLHashSet_fails_without_retry:
  "\<not> listening w addr \<Longrightarrow>
   NewTTLHashSet ttl_cfg poll_cfg pre addr w = (Inl ConnectionError, w\<lparr>dials := dials w + 1\<rparr>)"
  by (simp add: NewTTLHashSet_def)

theorem NewTTLHashSet_fails_without_retry_witness:
  "\<not> listening empty_store ''127.0.0.1:20000'' \<and>
   NewTTLHashSet 43200 2 ''govuk_mirror_crawler_test'' ''127.0.0.1:20000'' empty_store =
     (Inl ConnectionError, empty_store\<lparr>dials := 1\<rparr>)"
proof -
  have h: "\<not> listening empty_store ''127.0.0.1:20000''"
    by (simp add: empty_store_def)
  from NewTTLHashSet_fails_without_retry [OF h, of 43200 2 "''govuk_mirror_crawler_test''"] h
  show ?thesis by (simp add: empty_store_def)
qed

text \<open>
  Claim C6.  On a connected client, for a key that is not present: \<^verbatim>\<open>Add\<close> returns added=true
  with no error; \<^verbatim>\<open>Exists\<close> right after it returns true with no error; and a second \<^verbatim>\<open>Add\<close> at
  any time before the time to live has passed returns added=false with no error (and \<^verbatim>\<open>Exists\<close>
  still returns true then).
\<close>

theorem Add_twice_and_Exists:
  assumes "state c = Connected" "link_ok w" "\<not> live w (prefix c, k)" "0 < ttl c"
  shows "\<exists>w1. Add k c w = ((True, None), c, w1) \<and>
           Exists k c w1 = ((True, None), c, w1) \<and>
           (\<forall>n<ttl c. \<exists>w2. elapse n (c, w1) = (c, w2) \<and>
              Add k c w2 = ((False, None), c, w2) \<and>
              Exists k c w2 = ((True, None), c, w2))"
proof -
  define w1 where "w1 = w\<lparr>entries := (entries w)((prefix c, k) := Some (Some (now w + ttl c)))\<rparr>"
  have ok1: "link_ok w1" using assms(2) by (simp add: w1_def)
  have a: "Add k c w = ((True, None), c, w1)"
    using assms by (simp add: Add_def attempt_connected w1_def)
  have l: "live (w1\<lparr>now := now w1 + n\<rparr>) (prefix c, k)" if "n < ttl c" for n
    using that by (simp add: live_def w1_def)
  have e: "Exists k c w1 = ((True, None), c, w1)"
    using assms(1,4) ok1 l [of 0] by (simp add: Exists_def attempt_connected)
  have "\<exists>w2. elapse n (c, w1) = (c, w2) \<and> Add k c w2 = ((False, None), c, w2) \<and>
              Exists k c w2 = ((True, None), c, w2)" if "n < ttl c" for n
    using assms(1) ok1 l [OF that]
    by (simp add: elapse_connected Add_def Exists_def attempt_connected)
  with a e show ?thesis by blast
qed

theorem Add_twice_and_Exists_witness:
  "state test_client = Connected \<and> link_ok (empty_store\<lparr>link_ok := True\<rparr>) \<and>
   \<not> live (empty_store\<lparr>link_ok := True\<rparr>) (prefix test_client, ''foo.bar.baz'') \<and>
   0 < ttl test_client \<and>
   (\<exists>w1. Add ''foo.bar.baz'' test_client (empty_store\<lparr>link_ok := True\<rparr>) =
            ((True, None), test_client, w1) \<and>
          Exists ''foo.bar.baz'' test_client w1 = ((True, None), test_client, w1) \<and>
          (\<exists>w2. elapse 100 (test_client, w1) = (test_client, w2) \<and>
             Add ''foo.bar.baz'' test_client w2 = ((False, None), test_client, w2) \<and>
             Exists ''foo.bar.baz'' test_client w2 = ((True, None), test_client, w2)))"
proof -
  have h: "state test_client = Connected" "link_ok (empty_store\<lparr>link_ok := True\<rparr>)"
    "\<not> live (empty_store\<lparr>link_ok := True\<rparr>) (prefix test_client, ''foo.bar.baz'')"
    "0 < ttl test_client"
    by (simp_all add: test_client_def empty_store_def live_def)
  have n: "100 < ttl test_client" by (simp add: test_client_def)
  from Add_twice_and_Exists [OF h] n h show ?thesis by blast
qed

text \<open>
  Claim C7.  On a connected client \<^verbatim>\<open>TTL\<close> never fails for want of the key: for a key that is
  not present, or is stored with no expiry, it returns a negative duration and no error.  Right
  after an \<^verbatim>\<open>Add\<close> that inserted the key it returns the configured time to live, which is
  positive; \<open>n\<close> ticks later, before the time to live has passed, it returns that lifetime less
  \<open>n\<close>, still positive.
\<close>

theorem TTL_negative_or_remaining:
  assumes "state c = Connected" "link_ok w"
  shows "(\<not> live w (prefix c, k) \<or> entries w (prefix c, k) = Some None \<longrightarrow>
           (\<exists>d<0. TTL k c w = (Inr d, c, w))) \<and>
         (\<not> live w (prefix c, k) \<and> 0 < ttl c \<longrightarrow>
           (\<exists>w1. Add k c w = ((True, None), c, w1) \<and>
              TTL k c w1 = (Inr (int (ttl c)), c, w1) \<and>
              (\<forall>n<ttl c. \<exists>w2. elapse n (c, w1) = (c, w2) \<and>
                 TTL k c w2 = (Inr (int (ttl c) - int n), c, w2) \<and>
                 0 < int (ttl c) - int n)))"
proof (intro conjI impI)
  assume "\<not> live w (prefix c, k) \<or> entries w (prefix c, k) = Some None"
  then show "\<exists>d<0. TTL k c w = (Inr d, c, w)"
    using assms by (auto simp: TTL_def attempt_connected live_def split: option.splits)
next
  assume a: "\<not> live w (prefix c, k) \<and> 0 < ttl c"
  define w1 where "w1 = w\<lparr>entries := (entries w)((prefix c, k) := Some (Some (now w + ttl c)))\<rparr>"
  have ok1: "link_ok w1" using assms(2) by (simp add: w1_def)
  have ad: "Add k c w = ((True, None), c, w1)"
    using assms a by (simp add: Add_def attempt_connected w1_def)
  have t: "TTL k c (w1\<lparr>now := now w1 + n\<rparr>) =
      (Inr (int (ttl c) - int n), c, w1\<lparr>now := now w1 + n\<rparr>)" if "n < ttl c" for n
    using that assms(1) ok1 by (simp add: TTL_def attempt_connected w1_def)
  from t [of 0] a have t0: "TTL k c w1 = (Inr (int (ttl c)), c, w1)" by simp
  have "\<exists>w2. elapse n (c, w1) = (c, w2) \<and> TTL k c w2 = (Inr (int (ttl c) - int n), c, w2) \<and>
      0 < int (ttl c) - int n" if "n < ttl c" for n
    using assms(1) t [OF that] that by (simp add: elapse_connected)
  with ad t0 show "\<exists>w1. Add k c w = ((True, None), c, w1) \<and>
              TTL k c w1 = (Inr (int (ttl c)), c, w1) \<and>
              (\<forall>n<ttl c. \<exists>w2. elapse n (c, w1) = (c, w2) \<and>
                 TTL k c w2 = (Inr (int (ttl c) - int n), c, w2) \<and>
                 0 < int (ttl c) - int n)"
    by blast
qed

theorem TTL_negative_or_remaining_witness:
  "state test_client = Connected \<and> link_ok (empty_store\<lparr>link_ok := True\<rparr>) \<and>
   \<not> live (empty_store\<lparr>link_ok := True\<rparr>) (prefix test_client, ''some.ttl.key'') \<and>
   0 < ttl test_client \<and>
   (\<exists>d<0. TTL ''some.ttl.key'' test_client (empty_store\<lparr>link_ok := True\<rparr>) =
      (Inr d, test_client, empty_store\<lparr>link_ok := True\<rparr>)) \<and>
   (\<exists>w1. Add ''some.ttl.key'' test_client (empty_store\<lparr>link_ok := True\<rparr>) =
            ((True, None), test_client, w1) \<and>
          TTL ''some.ttl.key'' test_client w1 = (Inr 43200, test_client, w1) \<and>
          (\<exists>w2. elapse 100 (test_client, w1) = (test_client, w2) \<and>
             TTL ''some.ttl.key'' test_client w2 = (Inr 43100, test_client, w2)))"
proof -
  have h: "state test_client = Connected" "link_ok (empty_store\<lparr>link_ok := True\<rparr>)"
    by (simp_all add: test_client_def empty_store_def)
  have g: "\<not> live (empty_store\<lparr>link_ok := True\<rparr>) (prefix test_client, ''some.ttl.key'')"
    "0 < ttl test_client"
    by (simp_all add: test_client_def empty_store_def live_def)
  have n: "100 < ttl test_client" "int (ttl test_client) = 43200"
    by (simp_all add: test_client_def)
  note T = TTL_negative_or_remaining [OF h, of "''some.ttl.key''"]
  from T g have 1: "\<exists>d<0. TTL ''some.ttl.key'' test_client (empty_store\<lparr>link_ok := True\<rparr>) =
      (Inr d, test_client, empty_store\<lparr>link_ok := True\<rparr>)"
    by blast
  from T g obtain w1 where a: "Add ''some.ttl.key'' test_client (empty_store\<lparr>link_ok := True\<rparr>) =
            ((True, None), test_client, w1)"
    and b: "TTL ''some.ttl.key'' test_client w1 = (Inr (int (ttl test_client)), test_client, w1)"
    and c: "\<forall>n<ttl test_client. \<exists>w2. elapse n (test_client, w1) = (test_client, w2) \<and>
                 TTL ''some.ttl.key'' test_client w2 = (Inr (int (ttl test_client) - int n), test_client, w2) \<and>
                 0 < int (ttl test_client) - int n"
    by blast
  from c n(1) obtain w2 where d: "elapse 100 (test_client, w1) = (test_client, w2)"
    "TTL ''some.ttl.key'' test_client w2 = (Inr (int (ttl test_client) - int 100), test_client, w2)"
    by blast
  from d n(2) have d': "TTL ''some.ttl.key'' test_client w2 = (Inr 43100, test_client, w2)"
    by simp
  from b n(2) have b': "TTL ''some.ttl.key'' test_client w1 = (Inr 43200, test_client, w1)"
    by simp
  from h g 1 a b' d(1) d' show ?thesis by blast
qed

lemma tick_redial:
  "state c = Reconnecting \<Longrightarrow> next_dial c \<le> now w + 1 \<Longrightarrow> listening w (address c) \<Longrightarrow>
   tick (c, w) = (c\<lparr>state := Connected\<rparr>, w\<lparr>now := now w + 1, link_ok := True, dials := dials w + 1\<rparr>)"
  by (simp add: tick_def supervise_def)

lemma elapse_redial:
  assumes "state c = Reconnecting" "next_dial c \<le> now w + 1" "listening w (address c)" "1 \<le> n"
  shows "elapse n (c, w) =
     (c\<lparr>state := Connected\<rparr>, w\<lparr>now := now w + n, link_ok := True, dials := dials w + 1\<rparr>)"
proof -
  from assms(4) obtain m where n: "n = Suc m" by (cases n) simp_all
  show ?thesis
    unfolding n using assms(1-3) by (simp add: tick_redial elapse_connected)
qed

text \<open>
  Claim C5.  On a connected client whose connection has just broken, while the service still
  accepts connections: each operation called now returns a TransportError, \<^verbatim>\<open>Add\<close> and
  \<^verbatim>\<open>Exists\<close> with the result false, and leaves the store as it was.  From one tick later on, and
  so once one polling interval has passed, the client is connected again, the store is what it
  was before the break, and \<^verbatim>\<open>Exists\<close> succeeds and tells whether the key is present; a key
  that was stored before the break and has not expired by then is reported present.
\<close>

theorem break_then_recover:
  assumes "state c = Connected" "\<not> link_ok w" "listening w (address c)" "0 < poll c"
  shows "\<exists>c1. Exists k c w = ((False, Some TransportError), c1, w) \<and>
           Add k c w = ((False, Some TransportError), c1, w) \<and>
           TTL k c w = (Inl TransportError, c1, w) \<and>
           Ping c w = (Inl TransportError, c1, w) \<and>
           (\<forall>n. 1 \<le> n \<and> n \<le> poll c \<longrightarrow>
              (\<exists>c2 w2. elapse n (c1, w) = (c2, w2) \<and> state c2 = Connected \<and>
                 entries w2 = entries w \<and> now w2 = now w + n \<and>
                 Exists k c2 w2 = ((live w2 (prefix c, k), None), c2, w2) \<and>
                 (entries w (prefix c, k) = Some None \<or>
                  (\<exists>e. entries w (prefix c, k) = Some (Some e) \<and> now w + n < e) \<longrightarrow>
                    Exists k c2 w2 = ((True, None), c2, w2))))"
proof -
  define c1 where "c1 = c\<lparr>state := Reconnecting, next_dial := now w\<rparr>"
  have a: "attempt c w = (Some TransportError, c1)"
    using assms(1,2) by (simp add: attempt_broken c1_def)
  have r: "state c1 = Reconnecting" "next_dial c1 \<le> now w + 1" "listening w (address c1)"
    using assms(3) by (simp_all add: c1_def)
  have "\<exists>c2 w2. elapse n (c1, w) = (c2, w2) \<and> state c2 = Connected \<and>
                 entries w2 = entries w \<and> now w2 = now w + n \<and>
                 Exists k c2 w2 = ((live w2 (prefix c, k), None), c2, w2) \<and>
                 (entries w (prefix c, k) = Some None \<or>
                  (\<exists>e. entries w (prefix c, k) = Some (Some e) \<and> now w + n < e) \<longrightarrow>
                    Exists k c2 w2 = ((True, None), c2, w2))"
    if "1 \<le> n" for n
    unfolding elapse_redial [OF r that]
    by (auto simp: Exists_def attempt_def c1_def live_def)
  with a show ?thesis
    by (simp add: Exists_def Add_def TTL_def Ping_def)
qed

theorem break_then_recover_witness:
  "\<exists>w c1 c2 w2.
     Add ''reconnect'' test_client (empty_store\<lparr>link_ok := True\<rparr>) = ((True, None), test_client, w\<lparr>link_ok := True\<rparr>) \<and>
     state test_client = Connected \<and> \<not> link_ok w \<and> listening w (address test_client) \<and>
     0 < poll test_client \<and>
     Exists ''reconnect'' test_client w = ((False, Some TransportError), c1, w) \<and>
     elapse (poll test_client) (c1, w) = (c2, w2) \<and> state c2 = Connected \<and>
     Exists ''reconnect'' c2 w2 = ((True, None), c2, w2)"
proof -
  define w where "w = empty_store\<lparr>entries := (entries empty_store)
     ((prefix test_client, ''reconnect'') := Some (Some (now empty_store + ttl test_client)))\<rparr>"
  have ad: "Add ''reconnect'' test_client (empty_store\<lparr>link_ok := True\<rparr>) =
      ((True, None), test_client, w\<lparr>link_ok := True\<rparr>)"
    by (simp add: Add_def attempt_def test_client_def empty_store_def live_def w_def)
  have h: "state test_client = Connected" "\<not> link_ok w" "listening w (address test_client)"
    "0 < poll test_client"
    by (simp_all add: test_client_def empty_store_def w_def)
  have e: "entries w (prefix test_client, ''reconnect'') = Some (Some 43200)"
    by (simp add: w_def test_client_def empty_store_def)
  have n: "now w + poll test_client < 43200" "1 \<le> poll test_client" "poll test_client \<le> poll test_client"
    by (simp_all add: w_def test_client_def empty_store_def)
  from break_then_recover [OF h, of "''reconnect''"] e n ad h show ?thesis
    by (metis (no_types, lifting))
qed

lemma outage_tick_connected:
  "state c = Connected \<Longrightarrow>
   outage_tick up_at (c, w) =
     (c, w\<lparr>listening := (listening w)(address c := (up_at \<le> now w + 1)), now := now w + 1\<rparr>)"
  by (simp add: outage_tick_def tick_def supervise_def)

lemma outage_elapse_connected:
  "state c = Connected \<Longrightarrow>
   \<exists>w'. outage_elapse n up_at (c, w) = (c, w') \<and> link_ok w' = link_ok w \<and> now w' = now w + n"
proof (induction n arbitrary: w)
  case 0
  then show ?case by simp
next
  case (Suc n)
  from Suc.IH [OF Suc.prems,
      of "w\<lparr>listening := (listening w)(address c := (up_at \<le> now w + 1)), now := now w + 1\<rparr>"]
  show ?case by (simp add: outage_tick_connected [OF Suc.prems])
qed

lemma outage_tick_wait:
  "state c = Reconnecting \<Longrightarrow> now w + 1 < next_dial c \<Longrightarrow>
   outage_tick up_at (c, w) =
     (c, w\<lparr>listening := (listening w)(address c := (up_at \<le> now w + 1)), now := now w + 1\<rparr>)"
  by (simp add: outage_tick_def tick_def supervise_def)

lemma outage_elapse_wait:
  "state c = Reconnecting \<Longrightarrow> now w + n < next_dial c \<Longrightarrow>
   \<exists>w'. outage_elapse n up_at (c, w) = (c, w') \<and> now w' = now w + n"
proof (induction n arbitrary: w)
  case 0
  then show ?case by simp
next
  case (Suc n)
  let ?w = "w\<lparr>listening := (listening w)(address c := (up_at \<le> now w + 1)), now := now w + 1\<rparr>"
  from Suc.prems have a: "now w + 1 < next_dial c" and b: "now ?w + n < next_dial c"
    by simp_all
  from Suc.IH [OF Suc.prems(1) b] show ?case
    by (simp add: outage_tick_wait [OF Suc.prems(1) a])
qed

lemma outage_tick_dial_fails:
  "state c = Reconnecting \<Longrightarrow> next_dial c \<le> now w + 1 \<Longrightarrow> now w + 1 < up_at \<Longrightarrow>
   \<exists>w'. outage_tick up_at (c, w) = (c\<lparr>next_dial := now w + 1 + poll c\<rparr>, w') \<and>
        now w' = now w + 1"
  by (simp add: outage_tick_def tick_def supervise_def)

lemma outage_tick_dial_succeeds:
  "state c = Reconnecting \<Longrightarrow> next_dial c \<le> now w + 1 \<Longrightarrow> up_at \<le> now w + 1 \<Longrightarrow>
   \<exists>w'. outage_tick up_at (c, w) = (c\<lparr>state := Connected\<rparr>, w') \<and> link_ok w'"
  by (simp add: outage_tick_def tick_def supervise_def)

lemma round_succeeds:
  assumes "state c = Reconnecting" "next_dial c \<le> now w + 1" "up_at \<le> now w + 1" "0 < poll c"
  shows "\<exists>w'. outage_elapse (poll c) up_at (c, w) = (c\<lparr>state := Connected\<rparr>, w') \<and> link_ok w'"
proof -
  from assms(4) obtain p where p: "poll c = Suc p" by (cases "poll c") simp_all
  from outage_tick_dial_succeeds [OF assms(1) assms(2) assms(3)]
  obtain w1 where t: "outage_tick up_at (c, w) = (c\<lparr>state := Connected\<rparr>, w1)" and l: "link_ok w1"
    by blast
  have "state (c\<lparr>state := Connected\<rparr>) = Connected" by simp
  from outage_elapse_connected [OF this, of p up_at w1] l t show ?thesis
    unfolding p by auto
qed

lemma round_fails:
  assumes "state c = Reconnecting" "next_dial c \<le> now w + 1" "now w + 1 < up_at" "0 < poll c"
  shows "\<exists>w'. outage_elapse (poll c) up_at (c, w) = (c\<lparr>next_dial := now w + 1 + poll c\<rparr>, w') \<and>
           now w' = now w + poll c"
proof -
  from assms(4) obtain p where p: "poll c = Suc p" by (cases "poll c") simp_all
  from outage_tick_dial_fails [OF assms(1) assms(2) assms(3)]
  obtain w1 where t: "outage_tick up_at (c, w) = (c\<lparr>next_dial := now w + 1 + poll c\<rparr>, w1)"
    and n: "now w1 = now w + 1"
    by blast
  have a: "state (c\<lparr>next_dial := now w + 1 + poll c\<rparr>) = Reconnecting"
    using assms(1) by simp
  have b: "now w1 + p < next_dial (c\<lparr>next_dial := now w + 1 + poll c\<rparr>)"
    using n p by simp
  from outage_elapse_wait [OF a b, of up_at] t n show ?thesis
    unfolding p by auto
qed

lemma Exists_connected:
  "state c = Connected \<Longrightarrow> link_ok w \<Longrightarrow> \<exists>present. Exists k c w = ((present, None), c, w)"
  by (simp add: Exists_def attempt_def)

lemma Exists_reconnecting:
  "state c = Reconnecting \<Longrightarrow> Exists k c w = ((False, Some ReconnectingError), c, w)"
  by (simp add: Exists_def attempt_def)

lemma retries_during_outage:
  assumes "state c = Reconnecting" "next_dial c \<le> now w + 1" "0 < poll c"
  shows "\<exists>J. (\<forall>m>J. retries m up_at k (c, w) = replicate J ReconnectingError) \<and>
           (J = 0 \<or> J * poll c + 2 \<le> (up_at - now w) + poll c) \<and>
           up_at - now w \<le> J * poll c + 1"
  using assms
proof (induction "up_at - now w" arbitrary: c w rule: less_induct)
  case less
  show ?case
  proof (cases "up_at \<le> now w + 1")
    case True
    from round_succeeds [OF less.prems(1) less.prems(2) True less.prems(3)]
    obtain w' where e: "outage_elapse (poll c) up_at (c, w) = (c\<lparr>state := Connected\<rparr>, w')"
      and l: "link_ok w'" by blast
    from Exists_connected [of "c\<lparr>state := Connected\<rparr>" w' k] l
    obtain present where x: "Exists k (c\<lparr>state := Connected\<rparr>) w' =
        ((present, None), c\<lparr>state := Connected\<rparr>, w')"
      by auto
    have "retries m up_at k (c, w) = replicate 0 ReconnectingError" if "0 < m" for m
    proof -
      from that obtain m' where "m = Suc m'" by (cases m) simp_all
      with e x show ?thesis by simp
    qed
    with True show ?thesis
      by (intro exI [of _ 0]) auto
  next
    case False
    then have f: "now w + 1 < up_at" by simp
    from round_fails [OF less.prems(1) less.prems(2) f less.prems(3)]
    obtain w' where e: "outage_elapse (poll c) up_at (c, w) =
        (c\<lparr>next_dial := now w + 1 + poll c\<rparr>, w')"
      and n: "now w' = now w + poll c" by blast
    let ?c = "c\<lparr>next_dial := now w + 1 + poll c\<rparr>"
    have r: "state ?c = Reconnecting" "next_dial ?c \<le> now w' + 1" "0 < poll ?c"
      using less.prems n by simp_all
    have x: "Exists k ?c w' = ((False, Some ReconnectingError), ?c, w')"
      using r(1) by (rule Exists_reconnecting)
    have d: "up_at - now w' < up_at - now w"
      using f n less.prems(3) by simp
    from less.hyps [OF d r]
    obtain J where J1: "\<forall>m>J. retries m up_at k (?c, w') = replicate J ReconnectingError"
      and J2: "J = 0 \<or> J * poll ?c + 2 \<le> (up_at - now w') + poll ?c"
      and J3: "up_at - now w' \<le> J * poll ?c + 1"
      by blast
    have "retries m up_at k (c, w) = replicate (Suc J) ReconnectingError" if "Suc J < m" for m
    proof -
      from that obtain m' where m: "m = Suc m'" and "J < m'" by (cases m) simp_all
      with J1 have "retries m' up_at k (?c, w') = replicate J ReconnectingError" by blast
      with e x m show ?thesis by simp
    qed
    moreover have "Suc J * poll c + 2 \<le> (up_at - now w) + poll c"
    proof (cases "J = 0")
      case True
      with f show ?thesis by simp
    next
      case False
      with J2 have a: "J * poll c + 2 \<le> (up_at - now w') + poll c" by simp
      from False have "1 \<le> J" by simp
      then have "1 * poll c \<le> J * poll c" by (rule mult_le_mono1)
      then have b: "poll c \<le> J * poll c" by simp
      from a b have "2 \<le> up_at - now w'" by linarith
      then have "now w' < up_at" by linarith
      with a n show ?thesis by simp
    qed
    moreover have "up_at - now w \<le> Suc J * poll c + 1"
      using J3 n by simp
    ultimately show ?thesis
      by (intro exI [of _ "Suc J"]) simp
  qed
qed

text \<open>
  Claim C4.  While the client is reconnecting, each of \<^verbatim>\<open>Add\<close>, \<^verbatim>\<open>Exists\<close>, \<^verbatim>\<open>TTL\<close> and \<^verbatim>\<open>Ping\<close>
  fails with the ReconnectingError, which is not the TransportError, and returns at once: the
  clock, the store and the client are as before the call, so the call has not waited for the
  supervisor.  For the count: the connection breaks at an instant at which the service becomes
  unreachable for \<open>D\<close> ticks.  The call made then returns the TransportError.  A caller that
  from then on waits one polling interval \<open>P\<close> before each further try sees \<open>J\<close> failures, every
  one a ReconnectingError, and then a success (the list of errors is the same for every
  allowance of more than \<open>J\<close> tries), where \<open>J\<close> lies within one of \<open>D / P\<close>:
  \<open>J * P \<le> D + P\<close> and \<open>D \<le> J * P + P\<close>.
\<close>

theorem reconnecting_fails_fast:
  "(state c = Reconnecting \<longrightarrow>
      Add k c w = ((False, Some ReconnectingError), c, w) \<and>
      Exists k c w = ((False, Some ReconnectingError), c, w) \<and>
      TTL k c w = (Inl ReconnectingError, c, w) \<and>
      Ping c w = (Inl ReconnectingError, c, w) \<and>
      ReconnectingError \<noteq> TransportError) \<and>
   (state c = Connected \<and> \<not> link_ok w \<and> 0 < poll c \<longrightarrow>
      (\<exists>c1 J. Exists k c w = ((False, Some TransportError), c1, w) \<and>
         state c1 = Reconnecting \<and>
         (\<forall>m>J. retries m (now w + D) k (c1, w) = replicate J ReconnectingError) \<and>
         J * poll c \<le> D + poll c \<and> D \<le> J * poll c + poll c))"
proof -
  have A: "state c = Reconnecting \<longrightarrow>
      Add k c w = ((False, Some ReconnectingError), c, w) \<and>
      Exists k c w = ((False, Some ReconnectingError), c, w) \<and>
      TTL k c w = (Inl ReconnectingError, c, w) \<and>
      Ping c w = (Inl ReconnectingError, c, w) \<and>
      ReconnectingError \<noteq> TransportError"
    by (simp add: Add_def Exists_def TTL_def Ping_def attempt_def)
  have B: "\<exists>c1 J. Exists k c w = ((False, Some TransportError), c1, w) \<and>
         state c1 = Reconnecting \<and>
         (\<forall>m>J. retries m (now w + D) k (c1, w) = replicate J ReconnectingError) \<and>
         J * poll c \<le> D + poll c \<and> D \<le> J * poll c + poll c"
    if a: "state c = Connected \<and> \<not> link_ok w \<and> 0 < poll c"
  proof -
    define c1 where "c1 = c\<lparr>state := Reconnecting, next_dial := now w\<rparr>"
    have x: "Exists k c w = ((False, Some TransportError), c1, w)"
      using a by (simp add: Exists_def attempt_def c1_def)
    have r: "state c1 = Reconnecting" "next_dial c1 \<le> now w + 1" "0 < poll c1"
      and p: "poll c1 = poll c"
      using a by (simp_all add: c1_def)
    from retries_during_outage [OF r, of "now w + D" k]
    obtain J where J1: "\<forall>m>J. retries m (now w + D) k (c1, w) = replicate J ReconnectingError"
      and J2: "J = 0 \<or> J * poll c + 2 \<le> D + poll c"
      and J3: "D \<le> J * poll c + 1"
      unfolding p by auto
    from J2 have "J * poll c \<le> D + poll c" by auto
    moreover from J3 a have "D \<le> J * poll c + poll c" by linarith
    ultimately show ?thesis
      using x r(1) J1 by blast
  qed
  from A B show ?thesis by blast
qed

theorem reconnecting_fails_fast_witness:
  "state (test_client\<lparr>state := Reconnecting\<rparr>) = Reconnecting \<and>
   Exists ''reconnect'' (test_client\<lparr>state := Reconnecting\<rparr>) empty_store =
     ((False, Some ReconnectingError), test_client\<lparr>state := Reconnecting\<rparr>, empty_store) \<and>
   state test_client = Connected \<and> \<not> link_ok empty_store \<and> 0 < poll test_client \<and>
   (\<exists>c1 J. Exists ''reconnect'' test_client empty_store =
        ((False, Some TransportError), c1, empty_store) \<and>
      retries 5 (now empty_store + 7) ''reconnect'' (c1, empty_store) =
        replicate J ReconnectingError \<and>
      J * poll test_client \<le> 7 + poll test_client \<and> 7 \<le> J * poll test_client + poll test_client)"
proof -
  have h: "state (test_client\<lparr>state := Reconnecting\<rparr>) = Reconnecting"
    by simp
  have g: "state test_client = Connected \<and> \<not> link_ok empty_store \<and> 0 < poll test_client"
    by (simp add: test_client_def empty_store_def)
  have p: "poll test_client = 2" by (simp add: test_client_def)
  from reconnecting_fails_fast [of "test_client\<lparr>state := Reconnecting\<rparr>" "''reconnect''" empty_store] h
  have 1: "Exists ''reconnect'' (test_client\<lparr>state := Reconnecting\<rparr>) empty_store =
     ((False, Some ReconnectingError), test_client\<lparr>state := Reconnecting\<rparr>, empty_store)"
    by blast
  from reconnecting_fails_fast [of test_client "''reconnect''" empty_store 7] g
  obtain c1 J where x: "Exists ''reconnect'' test_client empty_store =
        ((False, Some TransportError), c1, empty_store)"
    and r: "\<forall>m>J. retries m (now empty_store + 7) ''reconnect'' (c1, empty_store) =
        replicate J ReconnectingError"
    and b: "J * poll test_client \<le> 7 + poll test_client" "7 \<le> J * poll test_client + poll test_client"
    by blast
  from b(1) p have "J < 5" by simp
  with r have "retries 5 (now empty_store + 7) ''reconnect'' (c1, empty_store) =
        replicate J ReconnectingError" by blast
  with h g 1 x b show ?thesis by blast
qed

end
